theory Spec2Isabelle
  imports Complex_Main "HOL-Library.Multiset"
begin

section \<open>Data model\<close>

text \<open>
  The scripts compute with Python floats. They are modelled by the real numbers: sums,
  products and quotients are exact, so rounding error is outside this development. Every
  place where Python would raise is a value of \<open>py_error\<close>.
\<close>

datatype py_error =
  KeyError | IndexError | ZeroDivisionError | ValueError | NetworkXNoPath | NodeNotFound

type_synonym node = nat

text \<open>
  The attribute dictionary of one road segment. Only the three keys the scripts read or
  write are kept; \<open>None\<close> says that the key is absent.
\<close>

record edge_attrs =
  length_attr :: "real option"
  avg_speed_kph :: "real option"
  travel_time :: "real option"

text \<open>
  What \<^verbatim>\<open>G[u][v]\<close> evaluates to. The scripts test \<^verbatim>\<open>isinstance(edge_data, dict)\<close>:
  \<open>EdgeDict\<close> is a dictionary from the key of a parallel segment to its attributes, in
  insertion order; \<open>EdgeAttrs\<close> is any other value, which the scripts then read
  directly with \<^verbatim>\<open>.get\<close>.
\<close>

datatype edge_data = EdgeDict "(nat \<times> edge_attrs) list" | EdgeAttrs edge_attrs

text \<open>The adjacency lookup \<^verbatim>\<open>G[u][v]\<close>; a missing pair raises \<open>KeyError\<close>.\<close>

type_synonym adjacency = "node \<Rightarrow> node \<Rightarrow> py_error + edge_data"

text \<open>The edges of a multigraph as \<^verbatim>\<open>G.edges(keys=True, data=True)\<close> lists them.\<close>

type_synonym multigraph = "(node \<times> node \<times> nat \<times> edge_attrs) list"

text \<open>
  A value that has none of the attribute names among its keys: read with \<^verbatim>\<open>.get\<close>, every
  attribute gives its default.
\<close>

definition no_attrs :: edge_attrs where
  "no_attrs = \<lparr>length_attr = None, avg_speed_kph = None, travel_time = None\<rparr>"

text \<open>
  The lookup \<^verbatim>\<open>G[u][v]\<close> on the multigraph that the scripts build. Between joined nodes
  it gives the graph library's read-only view of the parallel segments, keyed by the keys
  of the segments. The view is not a \<^verbatim>\<open>dict\<close>, so the \<^verbatim>\<open>isinstance\<close> test of the
  scripts fails and they read the view itself with \<^verbatim>\<open>.get('length', 0)\<close> and
  \<^verbatim>\<open>.get('travel_time', 0)\<close>; neither name is a key of the view.
\<close>

definition getitem :: "multigraph \<Rightarrow> adjacency" where
  "getitem G u v =
     (if list_ex (\<lambda>(a, b, k, d). a = u \<and> b = v) G then Inr (EdgeAttrs no_attrs)
      else Inl KeyError)"

text \<open>
  The same lookup on a graph object whose \<^verbatim>\<open>G[u][v]\<close> is a plain \<^verbatim>\<open>dict\<close> from the
  key of a parallel segment to its attributes, the value that the \<^verbatim>\<open>isinstance\<close> test
  of the scripts looks for.
\<close>

definition dict_getitem :: "multigraph \<Rightarrow> adjacency" where
  "dict_getitem G u v =
     (let kvs = map (\<lambda>(a, b, k, d). (k, d)) (filter (\<lambda>(a, b, k, d). a = u \<and> b = v) G)
      in if kvs = [] then Inl KeyError else Inr (EdgeDict kvs))"

section \<open>Path statistics (DRLAgent.calculate\_path\_stats)\<close>

record path_stats =
  distance :: real
  stats_travel_time :: real
  avg_speed :: real

text \<open>
  The sort key \<^verbatim>\<open>edge_data[k].get('travel_time', float('inf'))\<close>: an absent travel
  time compares as infinity.
\<close>

fun key_less :: "real option \<Rightarrow> real option \<Rightarrow> bool" where
  "key_less (Some x) (Some y) = (x < y)"
| "key_less (Some x) None = True"
| "key_less None k = False"

text \<open>Python's \<^verbatim>\<open>min(keys, key=...)\<close> keeps the first of several minimal elements.\<close>

fun min_from :: "(nat \<times> edge_attrs) \<Rightarrow> (nat \<times> edge_attrs) list \<Rightarrow> (nat \<times> edge_attrs)" where
  "min_from best [] = best"
| "min_from best (e # es) =
     (if key_less (travel_time (snd e)) (travel_time (snd best))
      then min_from e es else min_from best es)"

definition get_or :: "real option \<Rightarrow> real \<Rightarrow> real" where
  "get_or v d = (case v of None \<Rightarrow> d | Some x \<Rightarrow> x)"

text \<open>The choice of \<^verbatim>\<open>edge_info\<close> in \<^verbatim>\<open>calculate_path_stats\<close> (lines 44 to 48).\<close>

fun edge_info :: "edge_data \<Rightarrow> py_error + edge_attrs" where
  "edge_info (EdgeAttrs a) = Inr a"
| "edge_info (EdgeDict []) = Inl IndexError"
| "edge_info (EdgeDict [e]) = Inr (snd e)"
| "edge_info (EdgeDict (e # es)) = Inr (snd (min_from e es))"

text \<open>
  The choice of \<^verbatim>\<open>edge_info\<close> in the statistics loop of \<^verbatim>\<open>optimize_single_route\<close>
  (lines 143 to 153): a dictionary of one entry gives that entry, any other dictionary
  the entry of minimal travel time, and \<^verbatim>\<open>min\<close> of no keys raises \<open>ValueError\<close>.
\<close>

fun edge_info_route :: "edge_data \<Rightarrow> py_error + edge_attrs" where
  "edge_info_route (EdgeAttrs a) = Inr a"
| "edge_info_route (EdgeDict [e]) = Inr (snd e)"
| "edge_info_route (EdgeDict []) = Inl ValueError"
| "edge_info_route (EdgeDict (e # es)) = Inr (snd (min_from e es))"

text \<open>
  The loop over the consecutive pairs of the path, with both running totals. Both
  scripts run the same loop and differ in the choice of \<^verbatim>\<open>edge_info\<close> only, which is
  the first argument.
\<close>

fun stats_loop ::
  "(edge_data \<Rightarrow> py_error + edge_attrs) \<Rightarrow> adjacency \<Rightarrow> node list \<Rightarrow> real \<Rightarrow> real
     \<Rightarrow> py_error + (real \<times> real)" where
  "stats_loop pick G (u # v # rest) total_distance total_travel_time =
     (case G u v of
        Inl e \<Rightarrow> Inl e
      | Inr edge_data \<Rightarrow>
          (case pick edge_data of
             Inl e \<Rightarrow> Inl e
           | Inr info \<Rightarrow>
               stats_loop pick G (v # rest)
                 (total_distance + get_or (length_attr info) 0)
                 (total_travel_time + get_or (travel_time info) 0)))"
| "stats_loop pick G path total_distance total_travel_time =
     Inr (total_distance, total_travel_time)"

definition finish_stats :: "real \<times> real \<Rightarrow> path_stats" where
  "finish_stats t =
     (let total_distance_km = fst t / 1000;
          total_travel_time = snd t
      in \<lparr>distance = total_distance_km,
          stats_travel_time = total_travel_time,
          avg_speed = (if total_travel_time > 0
                       then total_distance_km / (total_travel_time / 60) else 0)\<rparr>)"

definition zero_stats :: path_stats where
  "zero_stats = \<lparr>distance = 0, stats_travel_time = 0, avg_speed = 0\<rparr>"

text \<open>The path argument may be \<^verbatim>\<open>None\<close>: it is an option.\<close>

definition calculate_path_stats :: "adjacency \<Rightarrow> node list option \<Rightarrow> py_error + path_stats" where
  "calculate_path_stats G path =
     (case path of
        None \<Rightarrow> Inr zero_stats
      | Some p \<Rightarrow>
          if p = [] \<or> length p < 2 then Inr zero_stats
          else (case stats_loop edge_info G p 0 0 of
                  Inl e \<Rightarrow> Inl e
                | Inr t \<Rightarrow> Inr (finish_stats t)))"

text \<open>The statistics of the route found by \<^verbatim>\<open>optimize_single_route\<close> (lines 137 to 159).\<close>

definition route_statistics :: "adjacency \<Rightarrow> node list \<Rightarrow> py_error + path_stats" where
  "route_statistics G shortest_path =
     (case stats_loop edge_info_route G shortest_path 0 0 of
        Inl e \<Rightarrow> Inl e
      | Inr t \<Rightarrow> Inr (finish_stats t))"

section \<open>Default speeds and travel-time weights\<close>

text \<open>
  \<^verbatim>\<open>str.lower\<close> on the ASCII letters; the other bytes of the string are left as they
  are.
\<close>

definition py_lower_char :: "char \<Rightarrow> char" where
  "py_lower_char c =
     (let n = (of_char c :: nat) in if 65 \<le> n \<and> n \<le> 90 then char_of (n + 32) else c)"

definition py_lower :: "string \<Rightarrow> string" where
  "py_lower s = map py_lower_char s"

fun startswith :: "string \<Rightarrow> string \<Rightarrow> bool" where
  "startswith [] s = True"
| "startswith (c # cs) [] = False"
| "startswith (c # cs) (d # ds) = (c = d \<and> startswith cs ds)"

text \<open>The substring test \<^verbatim>\<open>sub in s\<close>.\<close>

fun py_in :: "string \<Rightarrow> string \<Rightarrow> bool" where
  "py_in sub [] = (sub = [])"
| "py_in sub (c # cs) = (startswith sub (c # cs) \<or> py_in sub cs)"

text \<open>The dictionary \<^verbatim>\<open>default_speeds\<close> of sprint 3, in its insertion order.\<close>

definition default_speeds :: "(string \<times> real) list" where
  "default_speeds =
     [(''primary'', 45), (''secondary'', 35), (''tertiary'', 25),
      (''primary_link'', 40), (''secondary_link'', 30), (''tertiary_link'', 20)]"

text \<open>The loop of \<^verbatim>\<open>get_default_speed\<close>: the first entry whose key occurs in the string.\<close>

fun first_match :: "(string \<times> real) list \<Rightarrow> string \<Rightarrow> real" where
  "first_match [] highway_str = 30"
| "first_match ((road_type, speed) # rest) highway_str =
     (if py_in road_type highway_str then speed else first_match rest highway_str)"

text \<open>The argument is the text \<^verbatim>\<open>str(highway)\<close>.\<close>

definition get_default_speed :: "string \<Rightarrow> real" where
  "get_default_speed highway = first_match default_speeds (py_lower highway)"

text \<open>A row of the road table: the columns the two scripts use.\<close>

record road =
  osmid :: nat
  highway :: string
  road_length :: "real option"

text \<open>
  Sprint 3, lines 62 to 78: the left merge with the aggregated speeds, and the filling of
  the missing ones with \<^verbatim>\<open>get_default_speed\<close>.
\<close>

definition fill_speed :: "(nat \<rightharpoonup> real) \<Rightarrow> road \<Rightarrow> real" where
  "fill_speed avg_speeds r =
     (case avg_speeds (osmid r) of
        Some s \<Rightarrow> s
      | None \<Rightarrow> get_default_speed (highway r))"

text \<open>
  Sprint 4, lines 78 to 84. The aggregated column keeps its name
  \<^verbatim>\<open>simulated_speed_kph\<close> (the renaming of sprint 3, line 50, is missing), so the
  aggregated speeds are never read: line 83 reads the column \<^verbatim>\<open>avg_speed_kph\<close> of the
  merged table, which is there only if the road table brought one. The second argument is
  the cell of that column for the row: \<open>None\<close> when the table has no such column, as the
  road table that sprint 1 writes, and then the lookup raises; \<open>Some None\<close> for an empty
  cell, which line 84 fills with 30. The default table of line 82 is not used.
\<close>

definition fill_speed_pooling :: "(nat \<rightharpoonup> real) \<Rightarrow> real option option \<Rightarrow> py_error + real" where
  "fill_speed_pooling avg_speeds cell =
     (case cell of
        None \<Rightarrow> Inl KeyError
      | Some None \<Rightarrow> Inr 30
      | Some (Some s) \<Rightarrow> Inr s)"

text \<open>The attributes the rebuilt graph gives the segment of a row.\<close>

definition road_attrs :: "real \<Rightarrow> road \<Rightarrow> edge_attrs" where
  "road_attrs speed r =
     \<lparr>length_attr = road_length r, avg_speed_kph = Some speed, travel_time = None\<rparr>"

text \<open>
  The travel time of one segment in minutes (sprint 3 lines 101 to 104, sprint 4 lines 91
  to 93). Dividing a Python float by zero raises.
\<close>

definition travel_time_minutes :: "edge_attrs \<Rightarrow> py_error + real" where
  "travel_time_minutes data =
     (let length_km = get_or (length_attr data) 1000 / 1000;
          speed_kph = get_or (avg_speed_kph data) 30
      in if speed_kph = 0 then Inl ZeroDivisionError
         else Inr ((length_km / speed_kph) * 60))"

text \<open>
  The loop over \<^verbatim>\<open>G.edges(keys=True, data=True)\<close> that stores the travel time in every
  segment. An exception leaves the loop and the script returns.
\<close>

fun add_travel_times :: "multigraph \<Rightarrow> py_error + multigraph" where
  "add_travel_times [] = Inr []"
| "add_travel_times ((u, v, key, data) # rest) =
     (case travel_time_minutes data of
        Inl e \<Rightarrow> Inl e
      | Inr minutes \<Rightarrow>
          (case add_travel_times rest of
             Inl e \<Rightarrow> Inl e
           | Inr rest' \<Rightarrow>
               Inr ((u, v, key, data\<lparr>travel_time := Some minutes\<rparr>) # rest')))"

section \<open>The three-node scenario\<close>

text \<open>Nodes A, B, C are 1, 2, 3: A to B is 1000 m at 50 km/h, B to C is 2000 m at 40 km/h.\<close>

definition scenario_edges :: multigraph where
  "scenario_edges =
     [(1, 2, 0, \<lparr>length_attr = Some 1000, avg_speed_kph = Some 50, travel_time = None\<rparr>),
      (2, 3, 0, \<lparr>length_attr = Some 2000, avg_speed_kph = Some 40, travel_time = None\<rparr>)]"

definition scenario_graph :: multigraph where
  "scenario_graph =
     [(1, 2, 0, \<lparr>length_attr = Some 1000, avg_speed_kph = Some 50, travel_time = Some (6 / 5)\<rparr>),
      (2, 3, 0, \<lparr>length_attr = Some 2000, avg_speed_kph = Some 40, travel_time = Some 3\<rparr>)]"

text \<open>A walk of the graph: a nonempty node sequence whose consecutive pairs are joined.\<close>

fun walk :: "multigraph \<Rightarrow> node list \<Rightarrow> bool" where
  "walk G [] = False"
| "walk G [v] = True"
| "walk G (u # v # rest) =
     (list_ex (\<lambda>(a, b, k, d). a = u \<and> b = v) G \<and> walk G (v # rest))"

section \<open>The Shortest Path Engine\<close>

text \<open>
  Modelled from the spec: the Shortest Path Engine. The scripts call the routing library
  (\<^verbatim>\<open>ox.shortest_path\<close> with the weight \<^verbatim>\<open>travel_time\<close>), whose code is not among the
  sources, so this section follows section 4.4 of the specification: Dijkstra's algorithm
  over the travel-time weights, only the lightest of several parallel segments is
  relaxed, a missing path is \<open>NoPathFound\<close>, and of two paths of equal cost to a node the
  one that enters the node from the lower node id is kept.
\<close>

text \<open>The weighted segments of a graph: source, destination, travel time.\<close>

type_synonym segment = "node \<times> node \<times> real"

text \<open>The label of a node: the length of the best path found so far, and that path.\<close>

type_synonym label = "real \<times> node list"
type_synonym labels = "node \<Rightarrow> label option"

definition segments :: "multigraph \<Rightarrow> segment list" where
  "segments G =
     concat (map (\<lambda>(u, v, k, d). case travel_time d of None \<Rightarrow> [] | Some w \<Rightarrow> [(u, v, w)]) G)"

text \<open>
  Modelled from the spec: of several parallel segments only the lightest is relaxed. This
  is its weight from \<open>u\<close> to \<open>v\<close>.
\<close>

definition min_weight :: "segment list \<Rightarrow> node \<Rightarrow> node \<Rightarrow> real option" where
  "min_weight S u v =
     (let ws = map (\<lambda>(a, b, w). w) (filter (\<lambda>(a, b, w). a = u \<and> b = v) S)
      in if ws = [] then None else Some (Min (set ws)))"

text \<open>
  Modelled from the spec: the adjacency lookup by source node. The nodes that a segment
  from \<open>u\<close> leads to, in ascending order.
\<close>

definition successors :: "segment list \<Rightarrow> node \<Rightarrow> node list" where
  "successors S u = sort (remdups (map (\<lambda>(a, b, w). b) (filter (\<lambda>(a, b, w). a = u) S)))"

text \<open>Modelled from the spec: the node from which a path enters its last node.\<close>

definition via :: "node list \<Rightarrow> node option" where
  "via p = (case rev p of v # x # r \<Rightarrow> Some x | _ \<Rightarrow> None)"

text \<open>
  Modelled from the spec: the tie-break of the relaxation step. A candidate through \<open>u\<close>
  replaces the label of a node when it is shorter, or as long and \<open>u\<close> is lower than
  the node from which the present path enters.
\<close>

definition better :: "node \<Rightarrow> label \<Rightarrow> label \<Rightarrow> bool" where
  "better u cand cur =
     (fst cand < fst cur \<or>
      (fst cand = fst cur \<and> (case via (snd cur) of None \<Rightarrow> False | Some x \<Rightarrow> u < x)))"

text \<open>Modelled from the spec: the relaxation of the segments from \<open>u\<close> to \<open>v\<close>.\<close>

definition relax :: "segment list \<Rightarrow> node \<Rightarrow> label \<Rightarrow> labels \<Rightarrow> node \<Rightarrow> labels" where
  "relax S u lu best v =
     (case min_weight S u v of
        None \<Rightarrow> best
      | Some w \<Rightarrow>
          (let cand = (fst lu + w, snd lu @ [v])
           in case best v of
                None \<Rightarrow> best(v \<mapsto> cand)
              | Some cur \<Rightarrow> if better u cand cur then best(v \<mapsto> cand) else best))"

text \<open>Modelled from the spec: the relaxation of all segments that leave \<open>u\<close>.\<close>

definition relax_all :: "segment list \<Rightarrow> node \<Rightarrow> label \<Rightarrow> labels \<Rightarrow> labels" where
  "relax_all S u lu best = fold (\<lambda>v b. relax S u lu b v) (successors S u) best"

text \<open>Modelled from the spec: the unsettled nodes that have a label, with their labels.\<close>

definition candidates :: "node list \<Rightarrow> labels \<Rightarrow> (real \<times> node \<times> node list) list" where
  "candidates unsettled best =
     List.map_filter (\<lambda>v. case best v of None \<Rightarrow> None | Some l \<Rightarrow> Some (fst l, v, snd l))
       unsettled"

text \<open>
  Modelled from the spec: the next node to settle, the candidate of least distance, of
  several the one of lowest node id.
\<close>

fun closest ::
  "(real \<times> node \<times> node list) \<Rightarrow> (real \<times> node \<times> node list) list \<Rightarrow> (real \<times> node \<times> node list)" where
  "closest b [] = b"
| "closest b (c # cs) =
     closest (if fst c < fst b \<or> (fst c = fst b \<and> fst (snd c) < fst (snd b)) then c else b) cs"

lemma closest_in: "closest b cs \<in> set (b # cs)"
  by (induction b cs rule: closest.induct) auto

lemma closest_le: "c \<in> set (b # cs) \<Longrightarrow> fst (closest b cs) \<le> fst c"
proof (induction b cs arbitrary: c rule: closest.induct)
  case (1 b)
  then show ?case by simp
next
  case (2 b d cs)
  let ?b' = "if fst d < fst b \<or> (fst d = fst b \<and> fst (snd d) < fst (snd b)) then d else b"
  have le: "fst ?b' \<le> fst b" "fst ?b' \<le> fst d" by auto
  have ih: "\<And>e. e \<in> set (?b' # cs) \<Longrightarrow> fst (closest ?b' cs) \<le> fst e"
    using "2.IH" by simp
  from "2.prems" consider "c = b" | "c = d" | "c \<in> set cs" by auto
  then show ?case
  proof cases
    case 1
    have "fst (closest ?b' cs) \<le> fst ?b'" using ih [of ?b'] by simp
    with le(1) 1 show ?thesis by simp
  next
    case 2
    have "fst (closest ?b' cs) \<le> fst ?b'" using ih [of ?b'] by simp
    with le(2) 2 show ?thesis by simp
  next
    case 3
    then show ?thesis using ih [of c] by simp
  qed
qed

lemma candidates_iff:
  "(d, v, p) \<in> set (candidates U best) \<longleftrightarrow> v \<in> set U \<and> best v = Some (d, p)"
  by (induction U) (auto simp: candidates_def split: option.splits)

lemma closest_unsettled:
  assumes "candidates unsettled best = c # cs" and "closest c cs = (d, u, p)"
  shows "u \<in> set unsettled" and "best u = Some (d, p)"
proof -
  have "closest c cs \<in> set (candidates unsettled best)"
    using closest_in [of c cs] assms(1) by simp
  with assms(2) show "u \<in> set unsettled" and "best u = Some (d, p)"
    by (simp_all add: candidates_iff)
qed

text \<open>
  Modelled from the spec: the main loop of Dijkstra's algorithm. It settles the closest
  labelled node and relaxes its segments, until no unsettled node has a label. Every turn
  settles a node, so the loop ends.
\<close>

function dijkstra_loop :: "segment list \<Rightarrow> node list \<Rightarrow> labels \<Rightarrow> labels" where
  "dijkstra_loop S unsettled best =
     (case candidates unsettled best of
        [] \<Rightarrow> best
      | c # cs \<Rightarrow>
          (case closest c cs of
             (d, u, p) \<Rightarrow>
               dijkstra_loop S (removeAll u unsettled) (relax_all S u (d, p) best)))"
  by pat_completeness auto
termination
proof (relation "measure (\<lambda>(S, unsettled, best). length unsettled)", goal_cases)
  case 1
  show ?case by simp
next
  case 2
  then show ?case
    by (auto intro!: length_removeAll_less closest_unsettled(1) [OF _ sym])
qed

declare dijkstra_loop.simps [simp del]

text \<open>Modelled from the spec: the nodes of the graph, the end points of its segments.\<close>

definition nodes_of :: "segment list \<Rightarrow> node list" where
  "nodes_of S = remdups (concat (map (\<lambda>(a, b, w). [a, b]) S))"

datatype engine_error = NoPathFound node node

text \<open>
  Modelled from the spec: the Shortest Path Engine, in place of the library call
  \<^verbatim>\<open>ox.shortest_path\<close>. It gives the path to the destination and its travel time, or
  \<open>NoPathFound\<close> with the source and the destination.
\<close>

definition shortest_path :: "segment list \<Rightarrow> node \<Rightarrow> node \<Rightarrow> engine_error + label" where
  "shortest_path S source destination =
     (case dijkstra_loop S (source # nodes_of S) (Map.empty(source \<mapsto> (0, [source]))) destination of
        None \<Rightarrow> Inl (NoPathFound source destination)
      | Some l \<Rightarrow> Inr l)"

text \<open>A walk over the segments, and the travel time of a node sequence.\<close>

fun walkw :: "segment list \<Rightarrow> node list \<Rightarrow> bool" where
  "walkw S [] = False"
| "walkw S [v] = True"
| "walkw S (u # v # rest) = (min_weight S u v \<noteq> None \<and> walkw S (v # rest))"

fun wt :: "segment list \<Rightarrow> node list \<Rightarrow> real" where
  "wt S (u # v # rest) = (case min_weight S u v of None \<Rightarrow> 0 | Some w \<Rightarrow> w) + wt S (v # rest)"
| "wt S p = 0"

text \<open>A label is valid when its path is a walk from the source to the node with the stated travel time.\<close>

definition valid_label :: "segment list \<Rightarrow> node \<Rightarrow> node \<Rightarrow> label \<Rightarrow> bool" where
  "valid_label S s v l = (walkw S (snd l) \<and> hd (snd l) = s \<and> last (snd l) = v \<and> wt S (snd l) = fst l)"


text \<open>The invariant of the main loop; \<open>U\<close> is the list of unsettled nodes.\<close>

definition dijkstra_inv :: "segment list \<Rightarrow> node \<Rightarrow> node list \<Rightarrow> labels \<Rightarrow> bool" where
  "dijkstra_inv S s U best \<longleftrightarrow>
     best s = Some (0, [s]) \<and>
     (\<forall>v l. best v = Some l \<longrightarrow> valid_label S s v l) \<and>
     (\<forall>u lu v w. u \<notin> set U \<and> best u = Some lu \<and> min_weight S u v = Some w \<longrightarrow>
        (\<exists>lv. best v = Some lv \<and> fst lv \<le> fst lu + w)) \<and>
     (\<forall>u v w. min_weight S u v = Some w \<longrightarrow> v \<in> set U \<or> best v \<noteq> None) \<and>
     (\<forall>u lu q. u \<notin> set U \<and> best u = Some lu \<and> walkw S q \<and> hd q = s \<and> last q = u \<longrightarrow>
        fst lu \<le> wt S q)"


text \<open>A graph with three ways of equal cost from node 1 to node 3.\<close>

definition tie_segments :: "segment list" where
  "tie_segments = [(1, 2, 1), (2, 3, 1), (1, 3, 2), (1, 4, 1), (4, 3, 1)]"


section \<open>Pooling (sprint 4, step 4)\<close>

text \<open>
  A shipment dictionary. The priority is never read and is left out; \<open>cluster\<close> is the
  key the pooling step adds.
\<close>

record shipment =
  shipment_id :: string
  start_lat :: real
  start_lng :: real
  end_lat :: real
  end_lng :: real
  weight :: real
  cluster :: "nat option"

text \<open>\<^verbatim>\<open>np.mean\<close> of a list; of no numbers it is nan, here \<open>None\<close>.\<close>

definition np_mean :: "real list \<Rightarrow> real option" where
  "np_mean xs = (if xs = [] then None else Some (sum_list xs / real (length xs)))"

text \<open>
  \<^verbatim>\<open>StandardScaler\<close> of the clustering library, from its documentation: fitting stores
  the mean and the population standard deviation of each column, a zero deviation is
  replaced by 1, and a table of no rows is refused with \<open>ValueError\<close>. Transforming
  maps \<open>x\<close> to \<open>(x - mean) / scale\<close>.
\<close>

record scaler =
  mean_lat :: real
  mean_lng :: real
  scale_lat :: real
  scale_lng :: real

definition column_mean :: "real list \<Rightarrow> real" where
  "column_mean xs = sum_list xs / real (length xs)"

definition column_scale :: "real list \<Rightarrow> real" where
  "column_scale xs =
     (let s = sqrt (column_mean (map (\<lambda>x. (x - column_mean xs)\<^sup>2) xs))
      in if s = 0 then 1 else s)"

definition scaler_fit :: "(real \<times> real) list \<Rightarrow> py_error + scaler" where
  "scaler_fit X =
     (if X = [] then Inl ValueError
      else Inr \<lparr>mean_lat = column_mean (map fst X), mean_lng = column_mean (map snd X),
                scale_lat = column_scale (map fst X), scale_lng = column_scale (map snd X)\<rparr>)"

definition scaler_transform :: "scaler \<Rightarrow> (real \<times> real) list \<Rightarrow> (real \<times> real) list" where
  "scaler_transform sc X =
     map (\<lambda>(a, b). ((a - mean_lat sc) / scale_lat sc, (b - mean_lng sc) / scale_lng sc)) X"

text \<open>Lines 150 to 155: the start and the end coordinate of every shipment.\<close>

definition coordinates :: "shipment list \<Rightarrow> (real \<times> real) list" where
  "coordinates shipments =
     concat (map (\<lambda>ship. [(start_lat ship, start_lng ship), (end_lat ship, end_lng ship)])
               shipments)"

definition start_coords :: "shipment list \<Rightarrow> (real \<times> real) list" where
  "start_coords shipments = map (\<lambda>ship. (start_lat ship, start_lng ship)) shipments"

text \<open>Line 164: \<^verbatim>\<open>max(2, min(8, len(shipments) // 4))\<close>.\<close>

definition optimal_clusters :: "nat \<Rightarrow> nat" where
  "optimal_clusters n = max 2 (min 8 (n div 4))"

text \<open>
  Lines 174 to 179: the dictionary of pools, in the order in which the labels first
  occur. Every shipment is stored with its label.
\<close>

fun pools_append :: "(nat \<times> shipment list) list \<Rightarrow> nat \<Rightarrow> shipment \<Rightarrow> (nat \<times> shipment list) list" where
  "pools_append [] label ship = [(label, [ship])]"
| "pools_append ((l, members) # rest) label ship =
     (if l = label then (l, members @ [ship]) # rest
      else (l, members) # pools_append rest label ship)"

fun group_pools ::
  "shipment list \<Rightarrow> nat \<Rightarrow> nat list \<Rightarrow> (nat \<times> shipment list) list
     \<Rightarrow> py_error + (nat \<times> shipment list) list" where
  "group_pools shipments i [] pools = Inr pools"
| "group_pools shipments i (label # labels) pools =
     (if i < length shipments
      then group_pools shipments (Suc i) labels
             (pools_append pools label ((shipments ! i)\<lparr>cluster := Some label\<rparr>))
      else Inl IndexError)"

text \<open>
  The type of \<^verbatim>\<open>KMeans(n_clusters=k, random_state=42).fit_predict\<close>: the number of
  clusters and the points give one label per point, or an exception. The clustering
  itself is the library's and is a parameter of the model.
\<close>

type_synonym kmeans = "nat \<Rightarrow> (real \<times> real) list \<Rightarrow> py_error + nat list"

text \<open>Step 4 as a whole; an exception ends the run (lines 185 to 187).\<close>

definition pool_shipments :: "kmeans \<Rightarrow> shipment list \<Rightarrow> py_error + (nat \<times> shipment list) list" where
  "pool_shipments fit_predict shipments =
     (case scaler_fit (coordinates shipments) of
        Inl e \<Rightarrow> Inl e
      | Inr sc \<Rightarrow>
          (let start_coords_scaled = scaler_transform sc (start_coords shipments)
           in case fit_predict (optimal_clusters (length shipments)) start_coords_scaled of
                Inl e \<Rightarrow> Inl e
              | Inr cluster_labels \<Rightarrow> group_pools shipments 0 cluster_labels []))"

section \<open>Route sequencing (sprint 4, step 5)\<close>

datatype stop_kind = Pickup | Delivery

record stop =
  stop_type :: stop_kind
  stop_shipment_id :: string
  lat :: real
  lng :: real
  stop_weight :: real
  distance_from_center :: "real option"
  distance_from_last_pickup :: "real option"

definition pickup_stop :: "shipment \<Rightarrow> stop" where
  "pickup_stop ship =
     \<lparr>stop_type = Pickup, stop_shipment_id = shipment_id ship,
      lat = start_lat ship, lng = start_lng ship, stop_weight = weight ship,
      distance_from_center = None, distance_from_last_pickup = None\<rparr>"

definition delivery_stop :: "shipment \<Rightarrow> stop" where
  "delivery_stop ship =
     \<lparr>stop_type = Delivery, stop_shipment_id = shipment_id ship,
      lat = end_lat ship, lng = end_lng ship, stop_weight = weight ship,
      distance_from_center = None, distance_from_last_pickup = None\<rparr>"

definition planar_distance :: "real \<times> real \<Rightarrow> stop \<Rightarrow> real" where
  "planar_distance c s = sqrt ((lat s - fst c)\<^sup>2 + (lng s - snd c)\<^sup>2)"

text \<open>
  Lines 197 to 244. Both sorts are stable, as Python's is. The sort keys were stored in
  every stop by the loop just before the sort.
\<close>

definition order_stops :: "shipment list \<Rightarrow> stop list" where
  "order_stops members =
     (let stops = concat (map (\<lambda>ship. [pickup_stop ship, delivery_stop ship]) members);
          pickups = filter (\<lambda>s. stop_type s = Pickup) stops;
          deliveries = filter (\<lambda>s. stop_type s = Delivery) stops
      in case (np_mean (map lat pickups), np_mean (map lng pickups)) of
           (Some pickup_center_lat, Some pickup_center_lng) \<Rightarrow>
             (let pickups1 =
                    map (\<lambda>p. p\<lparr>distance_from_center :=
                                  Some (planar_distance (pickup_center_lat, pickup_center_lng) p)\<rparr>)
                      pickups;
                  pickups2 = sort_key (\<lambda>x. the (distance_from_center x)) pickups1;
                  last_pickup = last pickups2;
                  deliveries1 =
                    map (\<lambda>d. d\<lparr>distance_from_last_pickup :=
                                  Some (planar_distance (lat last_pickup, lng last_pickup) d)\<rparr>)
                      deliveries;
                  deliveries2 = sort_key (\<lambda>x. the (distance_from_last_pickup x)) deliveries1
              in pickups2 @ deliveries2)
         | _ \<Rightarrow> pickups @ deliveries)"

text \<open>
  What the route loop calls outside the scripts: the nearest node of a coordinate (first
  argument the longitude), the coordinates \<open>(y, x)\<close> of a node, the library's shortest
  path (a path, \<^verbatim>\<open>None\<close>, or an exception), and the graph of the agent.
\<close>

record routing =
  nearest_nodes :: "real \<Rightarrow> real \<Rightarrow> py_error + node"
  node_yx :: "node \<Rightarrow> py_error + (real \<times> real)"
  ox_shortest_path :: "node \<Rightarrow> node \<Rightarrow> py_error + node list option"
  graph :: adjacency

text \<open>\<^verbatim>\<open>DRLAgent.find_optimal_path\<close>: only \<^verbatim>\<open>NetworkXNoPath\<close> is caught.\<close>

definition find_optimal_path :: "routing \<Rightarrow> node \<Rightarrow> node \<Rightarrow> py_error + node list option" where
  "find_optimal_path E start_node end_node =
     (case ox_shortest_path E start_node end_node of
        Inl e \<Rightarrow> (if e = NetworkXNoPath then Inr None else Inl e)
      | Inr path \<Rightarrow> Inr path)"

record route_coordinate =
  sequence :: nat
  rc_stop_type :: stop_kind
  rc_shipment_id :: string
  latitude :: real
  longitude :: real

text \<open>
  The variables of the route loop, and the warnings it prints: the index of the stop and
  the exception.
\<close>

record route_state =
  route_coordinates :: "route_coordinate list"
  total_travel_time :: real
  total_distance :: real
  warnings :: "(nat \<times> py_error) list"

definition warn :: "nat \<Rightarrow> py_error \<Rightarrow> route_state \<Rightarrow> route_state" where
  "warn i e st = st\<lparr>warnings := warnings st @ [(i, e)]\<rparr>"

text \<open>
  Lines 264 to 273, the second half of the \<^verbatim>\<open>try\<close> block: the leg from the node of the
  stop to the next stop.
\<close>

definition leg :: "routing \<Rightarrow> nat \<Rightarrow> node \<Rightarrow> stop \<Rightarrow> route_state \<Rightarrow> route_state" where
  "leg E i n next_stop st =
     (case nearest_nodes E (lng next_stop) (lat next_stop) of
        Inl e \<Rightarrow> warn i e st
      | Inr next_node \<Rightarrow>
          (case find_optimal_path E n next_node of
             Inl e \<Rightarrow> warn i e st
           | Inr path \<Rightarrow>
               if path = None \<or> path = Some [] then st
               else (case calculate_path_stats (graph E) path of
                       Inl e \<Rightarrow> warn i e st
                     | Inr stats \<Rightarrow>
                         st\<lparr>total_travel_time := total_travel_time st + stats_travel_time stats,
                            total_distance := total_distance st + distance stats\<rparr>)))"

text \<open>Lines 253 to 277, one turn of the loop; \<open>next\<close> is the stop after this one.\<close>

definition visit :: "routing \<Rightarrow> nat \<Rightarrow> stop \<Rightarrow> stop option \<Rightarrow> route_state \<Rightarrow> route_state" where
  "visit E i s next st =
     (case nearest_nodes E (lng s) (lat s) of
        Inl e \<Rightarrow> warn i e st
      | Inr n \<Rightarrow>
          (case node_yx E n of
             Inl e \<Rightarrow> warn i e st
           | Inr yx \<Rightarrow>
               (let st1 = st\<lparr>route_coordinates := route_coordinates st @
                             [\<lparr>sequence = i, rc_stop_type = stop_type s,
                               rc_shipment_id = stop_shipment_id s,
                               latitude = fst yx, longitude = snd yx\<rparr>]\<rparr>
                in case next of
                     None \<Rightarrow> st1
                   | Some next_stop \<Rightarrow> leg E i n next_stop st1)))"

fun route_loop :: "routing \<Rightarrow> nat \<Rightarrow> stop list \<Rightarrow> route_state \<Rightarrow> route_state" where
  "route_loop E i [] st = st"
| "route_loop E i [s] st = visit E i s None st"
| "route_loop E i (s # next_stop # rest) st =
     route_loop E (Suc i) (next_stop # rest) (visit E i s (Some next_stop) st)"

definition initial_state :: route_state where
  "initial_state =
     \<lparr>route_coordinates = [], total_travel_time = 0, total_distance = 0, warnings = []\<rparr>"

text \<open>
  \<^verbatim>\<open>round(x, 2)\<close>: the nearest multiple of one hundredth, a tie going to the even one.
\<close>

definition round_half_even :: "real \<Rightarrow> int" where
  "round_half_even y =
     (let f = \<lfloor>y\<rfloor>; r = y - of_int f
      in if r < 1 / 2 then f else if 1 / 2 < r then f + 1 else if even f then f else f + 1)"

definition py_round2 :: "real \<Rightarrow> real" where
  "py_round2 x = of_int (round_half_even (x * 100)) / 100"

text \<open>The pool id is kept as the number that \<^verbatim>\<open>group_id\<close> prints with three digits.\<close>

record pool_result =
  group_id :: nat
  shipments :: "string list"
  num_shipments :: nat
  total_weight :: real
  pool_route_coordinates :: "route_coordinate list"
  total_distance_km :: real
  total_travel_time_minutes :: real
  num_stops :: nat
  efficiency_score :: real

text \<open>Lines 280 to 290.\<close>

definition make_pool_result :: "nat \<Rightarrow> shipment list \<Rightarrow> stop list \<Rightarrow> route_state \<Rightarrow> pool_result" where
  "make_pool_result pool_id members ordered_stops st =
     \<lparr>group_id = pool_id,
      shipments = map shipment_id members,
      num_shipments = length members,
      total_weight = sum_list (map weight members),
      pool_route_coordinates = route_coordinates st,
      total_distance_km = py_round2 (total_distance st),
      total_travel_time_minutes = py_round2 (total_travel_time st),
      num_stops = length ordered_stops,
      efficiency_score =
        py_round2 (real (length members) / max 1 (total_travel_time st / 60))\<rparr>"

text \<open>One turn of the loop over the pools: the result and the warnings printed.\<close>

definition process_pool :: "routing \<Rightarrow> nat \<times> shipment list \<Rightarrow> pool_result \<times> (nat \<times> py_error) list" where
  "process_pool E pool =
     (let ordered_stops = order_stops (snd pool);
          st = route_loop E 0 ordered_stops initial_state
      in (make_pool_result (fst pool) (snd pool) ordered_stops st, warnings st))"

section \<open>The report (sprint 4, step 6)\<close>





section \<open>Notions used to state the properties\<close>

text \<open>What a stop is apart from the two sort keys that the sequencer stores in it.\<close>

definition stop_core :: "stop \<Rightarrow> stop_kind \<times> string \<times> real \<times> real \<times> real" where
  "stop_core s = (stop_type s, stop_shipment_id s, lat s, lng s, stop_weight s)"

text \<open>An axis of a coordinate table is constant when all its entries are the same number.\<close>

definition constant_axis :: "real list \<Rightarrow> bool" where
  "constant_axis xs = list_all (\<lambda>x. x = hd xs) xs"

text \<open>The centroid of the pickups of a pool.\<close>

definition pickup_center :: "shipment list \<Rightarrow> real \<times> real" where
  "pickup_center members =
     (sum_list (map start_lat members) / real (length members),
      sum_list (map start_lng members) / real (length members))"

text \<open>
  What one turn of the route loop adds to the two totals for the leg from a stop to the
  next one.
\<close>

definition leg_time :: "routing \<Rightarrow> stop \<Rightarrow> stop \<Rightarrow> real" where
  "leg_time E s next_stop = total_travel_time (visit E 0 s (Some next_stop) initial_state)"

definition leg_distance :: "routing \<Rightarrow> stop \<Rightarrow> stop \<Rightarrow> real" where
  "leg_distance E s next_stop = total_distance (visit E 0 s (Some next_stop) initial_state)"

section \<open>A run with two shipments\<close>

text \<open>
  Two shipments, and a network in which the node nearest to a coordinate is the integer
  part of its latitude: the stops lie at the nodes 0, 2, 2 and 8. The segment from 0 to 2
  takes 30 minutes and node 8 cannot be reached from node 2. In the second network a
  segment of length zero joins 2 and 8. The agent holds the multigraph itself, as in the
  script.
\<close>

definition example_shipments :: "shipment list" where
  "example_shipments =
     [\<lparr>shipment_id = ''SHIP_001'', start_lat = 0, start_lng = 0, end_lat = 2, end_lng = 2,
       weight = 10, cluster = None\<rparr>,
      \<lparr>shipment_id = ''SHIP_002'', start_lat = 2, start_lng = 2, end_lat = 8, end_lng = 8,
       weight = 20, cluster = None\<rparr>]"



definition example_graph :: multigraph where
  "example_graph =
     [(0, 2, 0, \<lparr>length_attr = Some 1000, avg_speed_kph = Some 2, travel_time = Some 30\<rparr>)]"

definition example_routing :: routing where
  "example_routing =
     \<lparr>nearest_nodes = (\<lambda>x y. Inr (nat \<lfloor>y\<rfloor>)),
      node_yx = (\<lambda>n. Inr (real n, real n)),
      ox_shortest_path = (\<lambda>a b. if a = b then Inr (Some [a])
                                  else if a = 0 \<and> b = 2 then Inr (Some [0, 2])
                                  else Inl NetworkXNoPath),
      graph = getitem example_graph\<rparr>"

definition example_graph_zero :: multigraph where
  "example_graph_zero =
     example_graph @
     [(2, 8, 0, \<lparr>length_attr = Some 0, avg_speed_kph = Some 30, travel_time = Some 0\<rparr>)]"

definition example_routing_zero :: routing where
  "example_routing_zero =
     \<lparr>nearest_nodes = (\<lambda>x y. Inr (nat \<lfloor>y\<rfloor>)),
      node_yx = (\<lambda>n. Inr (real n, real n)),
      ox_shortest_path = (\<lambda>a b. if a = b then Inr (Some [a]) else Inr (Some [a, b])),
      graph = getitem example_graph_zero\<rparr>"

section \<open>Travel-time weights: the theorems\<close>

lemma first_match_range: "first_match tbl h \<in> insert 30 (snd ` set tbl)"
  by (induction tbl h rule: first_match.induct) auto

lemma get_default_speed_pos: "0 < get_default_speed h"
proof -
  have "get_default_speed h \<in> insert 30 (snd ` set default_speeds)"
    unfolding get_default_speed_def by (rule first_match_range)
  then show ?thesis by (auto simp: default_speeds_def)
qed

lemma travel_time_minutes_road:
  assumes "road_length r = Some L" and "0 < L" and "0 < s"
  shows "travel_time_minutes (road_attrs s r) = Inr (L / 1000 / s * 60) \<and> 0 < L / 1000 / s * 60"
  using assms by (simp add: travel_time_minutes_def road_attrs_def get_or_def Let_def)

text \<open>
  C1, as the code has it. A segment of positive length whose aggregated speed is missing
  (sprint 3 then takes the default of its road class) or positive gets a weight that is a
  strictly positive real number; and in the loop of both scripts every segment whose
  length and speed are positive, after the defaults 1000 m and 30 km/h for an absent
  attribute, gets a strictly positive weight. Neither script maps a zero speed to 30 km/h
  and neither guards a zero length.
\<close>

theorem weight_positive:
  assumes "road_length r = Some L" and "0 < L"
    and "avg_speeds (osmid r) = None \<or> (\<exists>s. avg_speeds (osmid r) = Some s \<and> 0 < s)"
  shows "(\<exists>w. travel_time_minutes (road_attrs (fill_speed avg_speeds r) r) = Inr w \<and> 0 < w) \<and>
         (0 < get_or (length_attr d) 1000 \<and> 0 < get_or (avg_speed_kph d) 30 \<longrightarrow>
            (\<exists>w. travel_time_minutes d = Inr w \<and> 0 < w))"
proof -
  have a: "0 < fill_speed avg_speeds r"
    using assms(3) by (auto simp: fill_speed_def get_default_speed_pos)
  have b: "0 < get_or (length_attr d) 1000 \<and> 0 < get_or (avg_speed_kph d) 30 \<longrightarrow>
            (\<exists>w. travel_time_minutes d = Inr w \<and> 0 < w)"
    by (simp add: travel_time_minutes_def Let_def)
  show ?thesis
    using travel_time_minutes_road [OF assms(1,2) a] b by blast
qed

theorem weight_positive_witness:
  "(\<exists>w. travel_time_minutes
          (road_attrs (fill_speed Map.empty \<lparr>osmid = 7, highway = ''primary'', road_length = Some 1000\<rparr>)
             \<lparr>osmid = 7, highway = ''primary'', road_length = Some 1000\<rparr>) = Inr w \<and> 0 < w) \<and>
   0 < get_or (length_attr \<lparr>length_attr = Some 500, avg_speed_kph = None, travel_time = None\<rparr>) 1000 \<and>
   0 < get_or (avg_speed_kph \<lparr>length_attr = Some 500, avg_speed_kph = None, travel_time = None\<rparr>) 30 \<and>
   (\<exists>w. travel_time_minutes \<lparr>length_attr = Some 500, avg_speed_kph = None, travel_time = None\<rparr>
          = Inr w \<and> 0 < w)"
  using weight_positive [of "\<lparr>osmid = 7, highway = ''primary'', road_length = Some 1000\<rparr>" 1000
      Map.empty "\<lparr>length_attr = Some 500, avg_speed_kph = None, travel_time = None\<rparr>"]
  by (simp add: get_or_def)

text \<open>
  C1 as stated fails: a segment of length 0 gets the weight 0, and a segment whose
  aggregated speed is 0 gets no weight at all, the division raises.
\<close>

theorem weight_zero_or_error:
  "travel_time_minutes
     (road_attrs (fill_speed [7 \<mapsto> 50] \<lparr>osmid = 7, highway = ''primary'', road_length = Some 0\<rparr>)
        \<lparr>osmid = 7, highway = ''primary'', road_length = Some 0\<rparr>) = Inr 0 \<and>
   travel_time_minutes
     (road_attrs (fill_speed [7 \<mapsto> 0] \<lparr>osmid = 7, highway = ''primary'', road_length = Some 1000\<rparr>)
        \<lparr>osmid = 7, highway = ''primary'', road_length = Some 1000\<rparr>) = Inl ZeroDivisionError \<and>
   add_travel_times
     [(1, 2, 0, \<lparr>length_attr = Some 1000, avg_speed_kph = Some 0, travel_time = None\<rparr>)]
     = Inl ZeroDivisionError"
  by (simp add: travel_time_minutes_def road_attrs_def fill_speed_def get_or_def)

text \<open>
  C2 on the code. \<^verbatim>\<open>get_default_speed\<close> tests the keys of its table in insertion order
  by substring, so every link class is caught by the entry of its base class: the
  entries 40, 30 and 20 of the table are never returned. Sprint 4 does not use its table:
  on the road table of the repository its lookup raises, and with a speed column every
  empty cell becomes 30 whatever the class and whatever the aggregated speeds.
\<close>

theorem default_speed_of_links:
  "get_default_speed ''primary'' = 45 \<and> get_default_speed ''secondary'' = 35 \<and>
   get_default_speed ''tertiary'' = 25 \<and> get_default_speed ''residential'' = 30 \<and>
   get_default_speed ''primary_link'' = 45 \<and> get_default_speed ''secondary_link'' = 35 \<and>
   get_default_speed ''tertiary_link'' = 25 \<and>
   fill_speed Map.empty \<lparr>osmid = 7, highway = ''primary_link'', road_length = Some 1000\<rparr> = 45 \<and>
   fill_speed_pooling [7 \<mapsto> 50] None = Inl KeyError \<and>
   fill_speed_pooling [7 \<mapsto> 50] (Some None) = Inr 30"
  by (simp add: fill_speed_def fill_speed_pooling_def) code_simp

section \<open>The scenario: the theorems\<close>

lemma scenario_walk_unique:
  assumes w: "walk scenario_graph p" and h: "hd p = 1" and l: "last p = 3"
  shows "p = [1, 2, 3]"
proof -
  from w obtain a p1 where p: "p = a # p1" by (cases p) auto
  with h have a: "a = 1" by simp
  from l p a obtain b p2 where p1: "p1 = b # p2" by (cases p1) auto
  from w p a p1 have b: "b = 2" and w2: "walk scenario_graph (b # p2)"
    by (auto simp: scenario_graph_def)
  from l p p1 b obtain c p3 where p2: "p2 = c # p3" by (cases p2) auto
  from w2 b p2 have c: "c = 3" and w3: "walk scenario_graph (c # p3)"
    by (auto simp: scenario_graph_def)
  have "p3 = []"
  proof (cases p3)
    case (Cons d p4)
    with w3 c show ?thesis by (auto simp: scenario_graph_def)
  qed simp
  with p a p1 b p2 c show ?thesis by simp
qed

lemma travel_time_minutes_formula:
  "s \<noteq> 0 \<Longrightarrow>
     travel_time_minutes \<lparr>length_attr = Some L, avg_speed_kph = Some s, travel_time = t\<rparr>
       = Inr ((L / 1000 / s) * 60)"
  by (simp add: travel_time_minutes_def get_or_def)

text \<open>
  C3 on the code. In the scenario the loop over the segments stores the weights 1.2 and 3,
  as the formula \<open>(L / 1000 / s) * 60\<close> says, and \<open>[A, B, C]\<close> is a walk from A to C. The
  statistics loop of sprint 3 then reads \<^verbatim>\<open>G[u][v]\<close>, which on the graph of the script
  is the view and not a \<^verbatim>\<open>dict\<close>: every leg adds 0, and the route has 0 minutes and
  0 km. Only on a graph object whose lookups are plain dicts does the same loop give 4.2
  minutes and 3 km.
\<close>

theorem scenario_statistics_zero:
  "add_travel_times scenario_edges = Inr scenario_graph \<and>
   map (\<lambda>(u, v, k, d). travel_time d) scenario_graph = [Some (12 / 10), Some 3] \<and>
   walk scenario_graph [1, 2, 3] \<and>
   route_statistics (getitem scenario_graph) [1, 2, 3]
     = Inr \<lparr>distance = 0, stats_travel_time = 0, avg_speed = 0\<rparr> \<and>
   route_statistics (dict_getitem scenario_graph) [1, 2, 3]
     = Inr \<lparr>distance = 3, stats_travel_time = 42 / 10, avg_speed = 300 / 7\<rparr>"
proof -
  have 1: "add_travel_times scenario_edges = Inr scenario_graph"
    by (simp add: scenario_edges_def scenario_graph_def travel_time_minutes_def get_or_def)
  have 2: "map (\<lambda>(u, v, k, d). travel_time d) scenario_graph = [Some (12 / 10), Some 3]"
    by (simp add: scenario_graph_def)
  have 3: "walk scenario_graph [1, 2, 3]"
    by (simp add: scenario_graph_def)
  have 4: "route_statistics (getitem scenario_graph) [1, 2, 3]
     = Inr \<lparr>distance = 0, stats_travel_time = 0, avg_speed = 0\<rparr>"
    by (simp add: route_statistics_def getitem_def no_attrs_def scenario_graph_def get_or_def
          finish_stats_def)
  have 5: "route_statistics (dict_getitem scenario_graph) [1, 2, 3]
     = Inr \<lparr>distance = 3, stats_travel_time = 42 / 10, avg_speed = 300 / 7\<rparr>"
    by (simp add: route_statistics_def dict_getitem_def scenario_graph_def get_or_def
          finish_stats_def)
  from 1 2 3 4 5 show ?thesis by blast
qed

section \<open>Path statistics: the theorems\<close>

lemma stats_loop_error:
  "stats_loop pick G p d t = Inl e \<Longrightarrow> (\<exists>u v. G u v = Inl e) \<or> (\<exists>x. pick x = Inl e)"
proof (induction pick G p d t rule: stats_loop.induct)
  case (1 pick G u v rest total_distance total_travel_time)
  show ?case
  proof (cases "G u v")
    case (Inl a)
    with "1.prems" show ?thesis by auto
  next
    case g: (Inr edge_data)
    show ?thesis
    proof (cases "pick edge_data")
      case (Inl a)
      with g "1.prems" show ?thesis by auto
    next
      case (Inr info)
      with g "1.prems" "1.IH" [OF g Inr] show ?thesis by simp
    qed
  qed
qed simp_all

lemma edge_info_error: "edge_info x = Inl e \<Longrightarrow> e = IndexError"
  by (cases x rule: edge_info.cases) auto

lemma getitem_error: "getitem M u v = Inl e \<Longrightarrow> e = KeyError"
  by (auto simp: getitem_def Let_def split: if_splits)

lemma calculate_path_stats_error:
  "calculate_path_stats (getitem M) path = Inl e \<Longrightarrow> e = KeyError \<or> e = IndexError"
  by (auto simp: calculate_path_stats_def split: option.splits if_splits sum.splits
      dest!: stats_loop_error dest: edge_info_error getitem_error)

text \<open>
  C10. For a path that is None, empty or shorter than two nodes the statistics are all
  zero. Whenever statistics are returned, the average speed is the distance in km divided
  by the travel time in hours if the accumulated travel time is positive, and 0 otherwise,
  so the quotient is never taken with a zero divisor: on a graph the function returns
  statistics or ends in a lookup error, never in a division by zero.
\<close>

theorem calculate_path_stats_safe:
  "calculate_path_stats G None = Inr zero_stats \<and>
   calculate_path_stats G (Some []) = Inr zero_stats \<and>
   calculate_path_stats G (Some [n]) = Inr zero_stats \<and>
   distance zero_stats = 0 \<and> stats_travel_time zero_stats = 0 \<and> avg_speed zero_stats = 0 \<and>
   (calculate_path_stats G path = Inr st \<longrightarrow>
      avg_speed st = (if stats_travel_time st > 0
                      then distance st / (stats_travel_time st / 60) else 0)) \<and>
   calculate_path_stats (getitem M) path \<noteq> Inl ZeroDivisionError"
proof -
  have "calculate_path_stats (getitem M) path \<noteq> Inl ZeroDivisionError"
    using calculate_path_stats_error [of M path ZeroDivisionError] by auto
  then show ?thesis
    by (auto simp: calculate_path_stats_def zero_stats_def finish_stats_def Let_def
           split: option.splits sum.splits if_splits)
qed

theorem calculate_path_stats_safe_witness:
  "calculate_path_stats (getitem scenario_graph) (Some [1, 2])
     = Inr \<lparr>distance = 0, stats_travel_time = 0, avg_speed = 0\<rparr> \<and>
   avg_speed \<lparr>distance = 0, stats_travel_time = 0, avg_speed = (0::real)\<rparr> =
     (if stats_travel_time \<lparr>distance = 0, stats_travel_time = 0, avg_speed = (0::real)\<rparr> > 0
      then distance \<lparr>distance = 0, stats_travel_time = 0, avg_speed = (0::real)\<rparr> /
           (stats_travel_time \<lparr>distance = 0, stats_travel_time = 0, avg_speed = (0::real)\<rparr> / 60)
      else 0) \<and>
   calculate_path_stats (dict_getitem scenario_graph) (Some [1, 2])
     = Inr \<lparr>distance = 1, stats_travel_time = 12 / 10, avg_speed = 50\<rparr> \<and>
   avg_speed \<lparr>distance = 1, stats_travel_time = 12 / 10, avg_speed = 50\<rparr> =
     (if stats_travel_time \<lparr>distance = 1, stats_travel_time = 12 / 10, avg_speed = 50\<rparr> > 0
      then distance \<lparr>distance = 1, stats_travel_time = 12 / 10, avg_speed = (50::real)\<rparr> /
           (stats_travel_time \<lparr>distance = 1, stats_travel_time = 12 / 10, avg_speed = (50::real)\<rparr> / 60)
      else 0)"
proof -
  have z: "calculate_path_stats (getitem scenario_graph) (Some [1, 2])
     = Inr \<lparr>distance = 0, stats_travel_time = 0, avg_speed = 0\<rparr>"
    by (simp add: calculate_path_stats_def getitem_def no_attrs_def scenario_graph_def get_or_def
          finish_stats_def)
  have h: "calculate_path_stats (dict_getitem scenario_graph) (Some [1, 2])
     = Inr \<lparr>distance = 1, stats_travel_time = 12 / 10, avg_speed = 50\<rparr>"
    by (simp add: calculate_path_stats_def dict_getitem_def scenario_graph_def get_or_def
          finish_stats_def)
  show ?thesis
    using z h
      calculate_path_stats_safe [of "getitem scenario_graph" 1 "Some [1, 2]"
        "\<lparr>distance = 0, stats_travel_time = 0, avg_speed = 0\<rparr>"]
      calculate_path_stats_safe [of "dict_getitem scenario_graph" 1 "Some [1, 2]"
        "\<lparr>distance = 1, stats_travel_time = 12 / 10, avg_speed = 50\<rparr>"]
    by blast
qed

section \<open>Pooling: the theorems\<close>

lemma optimal_clusters_bounds:
  "2 \<le> optimal_clusters n" "optimal_clusters n \<le> 8" "2 \<le> n \<Longrightarrow> optimal_clusters n \<le> n"
  by (auto simp: optimal_clusters_def)

lemma sum_list_shift:
  fixes xs :: "real list"
  shows "sum_list (map (\<lambda>x. (x - m) / s) xs) = (sum_list xs - real (length xs) * m) / s"
  by (induction xs) (simp_all add: algebra_simps add_divide_distrib diff_divide_distrib)

lemma column_mean_scaled:
  assumes "xs \<noteq> []"
  shows "column_mean (map (\<lambda>x. (x - column_mean xs) / s) xs) = 0"
  using assms by (simp add: column_mean_def sum_list_shift)

lemma sum_list_div_sq:
  fixes xs :: "real list"
  shows "sum_list (map (\<lambda>x. ((x - m) / s)\<^sup>2) xs) = sum_list (map (\<lambda>x. (x - m)\<^sup>2) xs) / s\<^sup>2"
  by (induction xs) (simp_all add: power_divide add_divide_distrib)

lemma column_scale_pos: "0 < column_scale xs"
proof -
  have "0 \<le> column_mean (map (\<lambda>x. (x - column_mean xs)\<^sup>2) xs)"
    unfolding column_mean_def by (intro divide_nonneg_nonneg sum_list_nonneg) auto
  then have "0 \<le> sqrt (column_mean (map (\<lambda>x. (x - column_mean xs)\<^sup>2) xs))" by simp
  then show ?thesis
    unfolding column_scale_def Let_def by (auto simp: less_le)
qed

lemma variance_nonneg: "0 \<le> column_mean (map (\<lambda>x. (x - m)\<^sup>2) xs)"
  unfolding column_mean_def by (intro divide_nonneg_nonneg sum_list_nonneg) auto

lemma variance_zero_constant:
  assumes "column_mean (map (\<lambda>x. (x - m)\<^sup>2) xs) = 0"
  shows "constant_axis xs"
proof (cases "xs = []")
  case True
  then show ?thesis by (simp add: constant_axis_def)
next
  case False
  with assms have "sum_list (map (\<lambda>x. (x - m)\<^sup>2) xs) = 0"
    by (simp add: column_mean_def)
  moreover have "\<And>y. y \<in> set (map (\<lambda>x. (x - m)\<^sup>2) xs) \<Longrightarrow> 0 \<le> y" by auto
  ultimately have "\<forall>y \<in> set (map (\<lambda>x. (x - m)\<^sup>2) xs). y = 0"
    by (simp only: sum_list_nonneg_eq_0_iff)
  then have all: "\<forall>x \<in> set xs. x = m" by simp
  with False have "hd xs = m" by (cases xs) auto
  with all show ?thesis by (simp add: constant_axis_def list_all_iff)
qed

lemma column_variance_scaled:
  assumes "\<not> constant_axis xs"
  shows "column_mean (map (\<lambda>y. y\<^sup>2) (map (\<lambda>x. (x - column_mean xs) / column_scale xs) xs)) = 1"
proof -
  let ?v = "column_mean (map (\<lambda>x. (x - column_mean xs)\<^sup>2) xs)"
  have v0: "0 \<le> ?v" by (rule variance_nonneg)
  have pos: "?v \<noteq> 0" using assms variance_zero_constant [of "column_mean xs" xs] by blast
  then have "sqrt ?v \<noteq> 0" by simp
  then have "column_scale xs = sqrt ?v" by (simp add: column_scale_def Let_def)
  with v0 have sq: "(column_scale xs)\<^sup>2 = ?v" by simp
  have "column_mean (map (\<lambda>y. y\<^sup>2) (map (\<lambda>x. (x - column_mean xs) / column_scale xs) xs))
        = sum_list (map (\<lambda>x. (x - column_mean xs)\<^sup>2) xs) / (column_scale xs)\<^sup>2 / real (length xs)"
    by (simp add: column_mean_def comp_def sum_list_div_sq)
  also have "\<dots> = ?v / ?v" by (simp add: sq column_mean_def)
  also have "\<dots> = 1" using pos by simp
  finally show ?thesis .
qed

lemma coordinates_nonempty: "ships \<noteq> [] \<Longrightarrow> coordinates ships \<noteq> []"
  by (cases ships) (simp_all add: coordinates_def)

lemma map_fst_transform:
  "map fst (scaler_transform sc X) = map (\<lambda>x. (x - mean_lat sc) / scale_lat sc) (map fst X)"
  by (simp add: scaler_transform_def case_prod_unfold comp_def)

lemma map_snd_transform:
  "map snd (scaler_transform sc X) = map (\<lambda>x. (x - mean_lng sc) / scale_lng sc) (map snd X)"
  by (simp add: scaler_transform_def case_prod_unfold comp_def)

text \<open>
  C5, as the code has it. For a list of at least two shipments the scaler is fitted to
  the pickup and the drop-off coordinates together: it is that table of all coordinates
  which has zero mean per axis after the transform, and unit variance on every axis that
  is not constant. The pickups are transformed with this scaler and clustered with
  \<open>k = max 2 (min 8 (n div 4))\<close> clusters, and \<open>2 \<le> k \<le> 8\<close> and \<open>k \<le> n\<close>. The random
  seed is inside the clustering, a parameter here.
\<close>

theorem pooling_scaler_and_clusters:
  assumes "2 \<le> length ships"
  shows "\<exists>sc. scaler_fit (coordinates ships) = Inr sc \<and>
           column_mean (map fst (scaler_transform sc (coordinates ships))) = 0 \<and>
           column_mean (map snd (scaler_transform sc (coordinates ships))) = 0 \<and>
           (\<not> constant_axis (map fst (coordinates ships)) \<longrightarrow>
              column_mean (map (\<lambda>y. y\<^sup>2) (map fst (scaler_transform sc (coordinates ships)))) = 1) \<and>
           (\<not> constant_axis (map snd (coordinates ships)) \<longrightarrow>
              column_mean (map (\<lambda>y. y\<^sup>2) (map snd (scaler_transform sc (coordinates ships)))) = 1) \<and>
           pool_shipments fit_predict ships =
             (case fit_predict (optimal_clusters (length ships))
                     (scaler_transform sc (start_coords ships)) of
                Inl e \<Rightarrow> Inl e
              | Inr cluster_labels \<Rightarrow> group_pools ships 0 cluster_labels []) \<and>
           optimal_clusters (length ships) = max 2 (min 8 (length ships div 4)) \<and>
           2 \<le> optimal_clusters (length ships) \<and>
           optimal_clusters (length ships) \<le> 8 \<and>
           optimal_clusters (length ships) \<le> length ships"
proof -
  let ?X = "coordinates ships"
  from assms have ne: "ships \<noteq> []" by auto
  then have X: "?X \<noteq> []" by (rule coordinates_nonempty)
  define sc where "sc = \<lparr>mean_lat = column_mean (map fst ?X), mean_lng = column_mean (map snd ?X),
                scale_lat = column_scale (map fst ?X), scale_lng = column_scale (map snd ?X)\<rparr>"
  have fit: "scaler_fit ?X = Inr sc" using X by (simp add: scaler_fit_def sc_def)
  have m1: "column_mean (map fst (scaler_transform sc ?X)) = 0"
    using X by (simp add: map_fst_transform sc_def column_mean_scaled del: map_map)
  have m2: "column_mean (map snd (scaler_transform sc ?X)) = 0"
    using X by (simp add: map_snd_transform sc_def column_mean_scaled del: map_map)
  have v1: "\<not> constant_axis (map fst ?X) \<longrightarrow>
              column_mean (map (\<lambda>y. y\<^sup>2) (map fst (scaler_transform sc ?X))) = 1"
    by (simp add: map_fst_transform sc_def column_variance_scaled del: map_map)
  have v2: "\<not> constant_axis (map snd ?X) \<longrightarrow>
              column_mean (map (\<lambda>y. y\<^sup>2) (map snd (scaler_transform sc ?X))) = 1"
    by (simp add: map_snd_transform sc_def column_variance_scaled del: map_map)
  have p: "pool_shipments fit_predict ships =
             (case fit_predict (optimal_clusters (length ships))
                     (scaler_transform sc (start_coords ships)) of
                Inl e \<Rightarrow> Inl e
              | Inr cluster_labels \<Rightarrow> group_pools ships 0 cluster_labels [])"
    by (simp add: pool_shipments_def fit)
  have k: "optimal_clusters (length ships) = max 2 (min 8 (length ships div 4))"
    by (simp add: optimal_clusters_def)
  from fit m1 m2 v1 v2 p k optimal_clusters_bounds(1,2) optimal_clusters_bounds(3) [OF assms]
  show ?thesis by blast
qed

lemma example_axes:
  "\<not> constant_axis (map fst (coordinates example_shipments))"
  "\<not> constant_axis (map snd (coordinates example_shipments))"
  by (simp_all add: coordinates_def example_shipments_def constant_axis_def)

lemma example_fit:
  "scaler_fit (coordinates example_shipments)
     = Inr \<lparr>mean_lat = 3, mean_lng = 3, scale_lat = 3, scale_lng = 3\<rparr>"
  apply (simp add: scaler_fit_def coordinates_def example_shipments_def)
  apply (simp add: column_mean_def column_scale_def)
  done

theorem pooling_scaler_and_clusters_witness:
  "2 \<le> length example_shipments \<and>
   \<not> constant_axis (map fst (coordinates example_shipments)) \<and>
   \<not> constant_axis (map snd (coordinates example_shipments)) \<and>
   optimal_clusters (length example_shipments) = 2 \<and>
   (\<exists>sc. scaler_fit (coordinates example_shipments) = Inr sc \<and>
         column_mean (map fst (scaler_transform sc (coordinates example_shipments))) = 0 \<and>
         column_mean (map (\<lambda>y. y\<^sup>2)
           (map fst (scaler_transform sc (coordinates example_shipments)))) = 1 \<and>
         column_mean (map (\<lambda>y. y\<^sup>2)
           (map snd (scaler_transform sc (coordinates example_shipments)))) = 1)"
proof -
  have h: "2 \<le> length example_shipments" by (simp add: example_shipments_def)
  have k: "optimal_clusters (length example_shipments) = 2"
    by (simp add: example_shipments_def optimal_clusters_def)
  have s1: "\<not> constant_axis (map fst (coordinates example_shipments))"
    and s2: "\<not> constant_axis (map snd (coordinates example_shipments))"
    by (simp_all add: example_axes)
  from pooling_scaler_and_clusters [OF h] h k s1 s2 show ?thesis by blast
qed

text \<open>
  C5 as stated fails: the pickup coordinates themselves are not standardized. For the two
  shipments of the example the scaler has mean 3 and scale 3 on both axes, the transformed
  pickups are \<open>(-1, -1)\<close> and \<open>(-1/3, -1/3)\<close>, and their mean is \<open>-2/3\<close>, not 0.
\<close>

theorem pickups_not_standardized:
  "scaler_fit (coordinates example_shipments)
     = Inr \<lparr>mean_lat = 3, mean_lng = 3, scale_lat = 3, scale_lng = 3\<rparr> \<and>
   scaler_transform \<lparr>mean_lat = 3, mean_lng = 3, scale_lat = 3, scale_lng = 3\<rparr>
     (start_coords example_shipments) = [(- 1, - 1), (- (1 / 3), - (1 / 3))] \<and>
   column_mean (map fst [(- 1, - 1), (- (1 / 3), - (1 / 3 :: real))]) = - (2 / 3) \<and>
   column_mean (map fst [(- 1, - 1), (- (1 / 3), - (1 / 3 :: real))]) \<noteq> 0"
proof -
  have "scaler_transform \<lparr>mean_lat = 3, mean_lng = 3, scale_lat = 3, scale_lng = 3\<rparr>
     (start_coords example_shipments) = [(- 1, - 1), (- (1 / 3), - (1 / 3))]"
    by (simp add: scaler_transform_def start_coords_def example_shipments_def)
  moreover have "column_mean (map fst [(- 1, - 1), (- (1 / 3), - (1 / 3 :: real))]) = - (2 / 3)"
    by (simp add: column_mean_def)
  ultimately show ?thesis using example_fit by simp
qed




section \<open>Route sequencing: the theorems\<close>

lemma pickups_of_stops:
  "filter (\<lambda>s. stop_type s = Pickup)
     (concat (map (\<lambda>ship. [pickup_stop ship, delivery_stop ship]) members))
   = map pickup_stop members"
  by (induction members) (simp_all add: pickup_stop_def delivery_stop_def)

lemma deliveries_of_stops:
  "filter (\<lambda>s. stop_type s = Delivery)
     (concat (map (\<lambda>ship. [pickup_stop ship, delivery_stop ship]) members))
   = map delivery_stop members"
  by (induction members) (simp_all add: pickup_stop_def delivery_stop_def)

lemma planar_distance_update1 [simp]:
  "planar_distance c (p\<lparr>distance_from_center := d\<rparr>) = planar_distance c p"
  by (simp add: planar_distance_def)

lemma planar_distance_update2 [simp]:
  "planar_distance c (p\<lparr>distance_from_last_pickup := d\<rparr>) = planar_distance c p"
  by (simp add: planar_distance_def)

lemma stop_core_update [simp]:
  "stop_core (p\<lparr>distance_from_center := d\<rparr>) = stop_core p"
  "stop_core (p\<lparr>distance_from_last_pickup := d\<rparr>) = stop_core p"
  by (simp_all add: stop_core_def)

lemma sorted_by_stored_center:
  "sorted (map (planar_distance c)
     (sort_key (\<lambda>x. the (distance_from_center x))
        (map (\<lambda>p. p\<lparr>distance_from_center := Some (planar_distance c p)\<rparr>) ps)))"
proof -
  let ?qs = "map (\<lambda>p. p\<lparr>distance_from_center := Some (planar_distance c p)\<rparr>) ps"
  have "map (planar_distance c) (sort_key (\<lambda>x. the (distance_from_center x)) ?qs)
        = map (\<lambda>x. the (distance_from_center x)) (sort_key (\<lambda>x. the (distance_from_center x)) ?qs)"
    by (intro map_cong) auto
  then show ?thesis by (simp only: sorted_sort_key)
qed

lemma sorted_by_stored_last:
  "sorted (map (planar_distance c)
     (sort_key (\<lambda>x. the (distance_from_last_pickup x))
        (map (\<lambda>p. p\<lparr>distance_from_last_pickup := Some (planar_distance c p)\<rparr>) ps)))"
proof -
  let ?qs = "map (\<lambda>p. p\<lparr>distance_from_last_pickup := Some (planar_distance c p)\<rparr>) ps"
  have "map (planar_distance c) (sort_key (\<lambda>x. the (distance_from_last_pickup x)) ?qs)
        = map (\<lambda>x. the (distance_from_last_pickup x)) (sort_key (\<lambda>x. the (distance_from_last_pickup x)) ?qs)"
    by (intro map_cong) auto
  then show ?thesis by (simp only: sorted_sort_key)
qed

lemma mset_core_sorted:
  assumes "\<And>p. stop_core (g p) = stop_core p"
  shows "mset (map stop_core (sort_key f (map g (map h ps)))) = mset (map (stop_core \<circ> h) ps)"
proof -
  have "mset (map stop_core (sort_key f (map g (map h ps)))) = image_mset stop_core (mset (map g (map h ps)))"
    by (simp only: mset_map mset_sort)
  also have "\<dots> = mset (map (stop_core \<circ> h) ps)"
    by (simp add: assms image_mset.compositionality comp_def)
  finally show ?thesis .
qed

text \<open>
  C7. The stop sequence of a pool is a list \<open>P\<close> followed by a list \<open>D\<close>: \<open>P\<close> holds
  exactly the pickup stops of the member shipments, one of each, in ascending distance
  from the centroid of the pickups; \<open>D\<close> holds exactly their delivery stops, one of each,
  in ascending distance from the last stop of \<open>P\<close>. So the sequence has two stops for
  every member shipment.
\<close>

theorem order_stops_sequence:
  "\<exists>P D. order_stops members = P @ D \<and>
     mset (map stop_core P) = mset (map (stop_core \<circ> pickup_stop) members) \<and>
     sorted (map (planar_distance (pickup_center members)) P) \<and>
     mset (map stop_core D) = mset (map (stop_core \<circ> delivery_stop) members) \<and>
     sorted (map (planar_distance (lat (last P), lng (last P))) D) \<and>
     length (order_stops members) = 2 * length members"
proof (cases "members = []")
  case True
  then show ?thesis by (simp add: order_stops_def np_mean_def)
next
  case False
  let ?c = "pickup_center members"
  let ?P = "sort_key (\<lambda>x. the (distance_from_center x))
              (map (\<lambda>p. p\<lparr>distance_from_center := Some (planar_distance ?c p)\<rparr>)
                 (map pickup_stop members))"
  let ?l = "(lat (last ?P), lng (last ?P))"
  let ?D = "sort_key (\<lambda>x. the (distance_from_last_pickup x))
              (map (\<lambda>d. d\<lparr>distance_from_last_pickup := Some (planar_distance ?l d)\<rparr>)
                 (map delivery_stop members))"
  have lat: "map lat (map pickup_stop members) = map start_lat members"
    and lng: "map lng (map pickup_stop members) = map start_lng members"
    by (simp_all add: pickup_stop_def)
  have eq: "order_stops members = ?P @ ?D"
    using False
    by (simp add: order_stops_def pickups_of_stops deliveries_of_stops np_mean_def Let_def
          pickup_center_def lat lng del: map_map)
  have 1: "mset (map stop_core ?P) = mset (map (stop_core \<circ> pickup_stop) members)"
    by (rule mset_core_sorted) simp
  have 2: "sorted (map (planar_distance ?c) ?P)" by (rule sorted_by_stored_center)
  have 3: "mset (map stop_core ?D) = mset (map (stop_core \<circ> delivery_stop) members)"
    by (rule mset_core_sorted) simp
  have 4: "sorted (map (planar_distance ?l) ?D)" by (rule sorted_by_stored_last)
  have 5: "length (order_stops members) = 2 * length members"
    by (simp add: eq)
  from eq 1 2 3 4 5 show ?thesis by blast
qed

section \<open>The route loop and the report: the theorems\<close>


lemma example_stops:
  "\<exists>a b c d. order_stops example_shipments =
     [\<lparr>stop_type = Pickup, stop_shipment_id = ''SHIP_001'', lat = 0, lng = 0, stop_weight = 10,
        distance_from_center = a, distance_from_last_pickup = None\<rparr>,
      \<lparr>stop_type = Pickup, stop_shipment_id = ''SHIP_002'', lat = 2, lng = 2, stop_weight = 20,
        distance_from_center = b, distance_from_last_pickup = None\<rparr>,
      \<lparr>stop_type = Delivery, stop_shipment_id = ''SHIP_001'', lat = 2, lng = 2, stop_weight = 10,
        distance_from_center = None, distance_from_last_pickup = c\<rparr>,
      \<lparr>stop_type = Delivery, stop_shipment_id = ''SHIP_002'', lat = 8, lng = 8, stop_weight = 20,
        distance_from_center = None, distance_from_last_pickup = d\<rparr>]"
  by (simp add: order_stops_def example_shipments_def pickup_stop_def delivery_stop_def
        np_mean_def planar_distance_def)

lemma example_loop:
  "route_loop example_routing 0 (order_stops example_shipments) initial_state =
     \<lparr>route_coordinates =
        [\<lparr>sequence = 0, rc_stop_type = Pickup, rc_shipment_id = ''SHIP_001'', latitude = 0, longitude = 0\<rparr>,
         \<lparr>sequence = 1, rc_stop_type = Pickup, rc_shipment_id = ''SHIP_002'', latitude = 2, longitude = 2\<rparr>,
         \<lparr>sequence = 2, rc_stop_type = Delivery, rc_shipment_id = ''SHIP_001'', latitude = 2, longitude = 2\<rparr>,
         \<lparr>sequence = 3, rc_stop_type = Delivery, rc_shipment_id = ''SHIP_002'', latitude = 8, longitude = 8\<rparr>],
      total_travel_time = 0, total_distance = 0, warnings = []\<rparr>"
proof -
  obtain a b c d where o: "order_stops example_shipments =
     [\<lparr>stop_type = Pickup, stop_shipment_id = ''SHIP_001'', lat = 0, lng = 0, stop_weight = 10,
        distance_from_center = a, distance_from_last_pickup = None\<rparr>,
      \<lparr>stop_type = Pickup, stop_shipment_id = ''SHIP_002'', lat = 2, lng = 2, stop_weight = 20,
        distance_from_center = b, distance_from_last_pickup = None\<rparr>,
      \<lparr>stop_type = Delivery, stop_shipment_id = ''SHIP_001'', lat = 2, lng = 2, stop_weight = 10,
        distance_from_center = None, distance_from_last_pickup = c\<rparr>,
      \<lparr>stop_type = Delivery, stop_shipment_id = ''SHIP_002'', lat = 8, lng = 8, stop_weight = 20,
        distance_from_center = None, distance_from_last_pickup = d\<rparr>]"
    using example_stops by blast
  show ?thesis
    unfolding o
    by (simp add: visit_def leg_def find_optimal_path_def example_routing_def initial_state_def
          calculate_path_stats_def zero_stats_def getitem_def no_attrs_def example_graph_def
          get_or_def finish_stats_def)
qed


lemma leg_totals:
  "total_travel_time (leg E i n nx st) - total_travel_time st
     = total_travel_time (leg E j n nx st') - total_travel_time st' \<and>
   total_distance (leg E i n nx st) - total_distance st
     = total_distance (leg E j n nx st') - total_distance st'"
  by (simp add: leg_def warn_def split: sum.splits)

lemma visit_totals:
  "total_travel_time (visit E i s nx st) - total_travel_time st
     = total_travel_time (visit E j s nx st') - total_travel_time st' \<and>
   total_distance (visit E i s nx st) - total_distance st
     = total_distance (visit E j s nx st') - total_distance st'"
proof (cases "nearest_nodes E (lng s) (lat s)")
  case (Inl e)
  then show ?thesis by (simp add: visit_def warn_def)
next
  case n: (Inr n)
  show ?thesis
  proof (cases "node_yx E n")
    case (Inl e)
    with n show ?thesis by (simp add: visit_def warn_def)
  next
    case yx: (Inr yx)
    show ?thesis
    proof (cases nx)
      case None
      with n yx show ?thesis by (simp add: visit_def Let_def)
    next
      case (Some next_stop)
      let ?a = "st\<lparr>route_coordinates := route_coordinates st @
                             [\<lparr>sequence = i, rc_stop_type = stop_type s,
                               rc_shipment_id = stop_shipment_id s,
                               latitude = fst yx, longitude = snd yx\<rparr>]\<rparr>"
      let ?b = "st'\<lparr>route_coordinates := route_coordinates st' @
                             [\<lparr>sequence = j, rc_stop_type = stop_type s,
                               rc_shipment_id = stop_shipment_id s,
                               latitude = fst yx, longitude = snd yx\<rparr>]\<rparr>"
      from leg_totals [of E i n next_stop ?a j ?b] n yx Some
      show ?thesis by (simp add: visit_def Let_def)
    qed
  qed
qed

lemma visit_leg_time:
  "total_travel_time (visit E i s (Some nx) st) = total_travel_time st + leg_time E s nx"
  using visit_totals [of E i s "Some nx" st 0 initial_state]
  by (simp add: leg_time_def initial_state_def)

lemma visit_leg_distance:
  "total_distance (visit E i s (Some nx) st) = total_distance st + leg_distance E s nx"
  using visit_totals [of E i s "Some nx" st 0 initial_state]
  by (simp add: leg_distance_def initial_state_def)

lemma visit_last:
  "total_travel_time (visit E i s None st) = total_travel_time st \<and>
   total_distance (visit E i s None st) = total_distance st"
  by (simp add: visit_def warn_def Let_def split: sum.splits)

lemma route_loop_totals:
  "total_travel_time (route_loop E i stops st)
     = total_travel_time st + sum_list (map (\<lambda>(s, nx). leg_time E s nx) (zip stops (tl stops))) \<and>
   total_distance (route_loop E i stops st)
     = total_distance st + sum_list (map (\<lambda>(s, nx). leg_distance E s nx) (zip stops (tl stops)))"
proof (induction E i stops st rule: route_loop.induct)
  case (1 E i st)
  then show ?case by simp
next
  case (2 E i s st)
  then show ?case by (simp add: visit_last)
next
  case (3 E i s next_stop rest st)
  then show ?case by (simp add: visit_leg_time visit_leg_distance)
qed

lemma no_path_leg:
  assumes "ox_shortest_path E n m = Inl NetworkXNoPath \<or> ox_shortest_path E n m = Inr None"
    and "nearest_nodes E (lng nx) (lat nx) = Inr m"
  shows "leg E i n nx st = st"
  using assms by (auto simp: leg_def find_optimal_path_def)


text \<open>
  C6, as the code has it. When the library finds no path for a leg (it raises
  \<open>NetworkXNoPath\<close> or returns \<open>None\<close>), the turn of the loop only appends the
  coordinate of the stop: the leg adds nothing to the two totals, and no warning is
  recorded. The totals of the loop are the sums of what the legs add one by one, so the
  other legs still count, and the result of the pool is made from these sums whatever the
  legs did.
\<close>

theorem unreachable_leg_excluded:
  assumes "nearest_nodes E (lng s) (lat s) = Inr n" and "node_yx E n = Inr yx"
    and "nearest_nodes E (lng nx) (lat nx) = Inr m"
    and "ox_shortest_path E n m = Inl NetworkXNoPath \<or> ox_shortest_path E n m = Inr None"
  shows "visit E i s (Some nx) st =
           st\<lparr>route_coordinates := route_coordinates st @
                 [\<lparr>sequence = i, rc_stop_type = stop_type s, rc_shipment_id = stop_shipment_id s,
                   latitude = fst yx, longitude = snd yx\<rparr>]\<rparr> \<and>
         leg_time E s nx = 0 \<and> leg_distance E s nx = 0 \<and>
         total_travel_time (route_loop E j stops st') =
           total_travel_time st' + sum_list (map (\<lambda>(s, nx). leg_time E s nx) (zip stops (tl stops))) \<and>
         total_distance (route_loop E j stops st') =
           total_distance st' + sum_list (map (\<lambda>(s, nx). leg_distance E s nx) (zip stops (tl stops))) \<and>
         total_travel_time_minutes (fst (process_pool E pool)) =
           py_round2 (sum_list (map (\<lambda>(s, nx). leg_time E s nx)
                        (zip (order_stops (snd pool)) (tl (order_stops (snd pool)))))) \<and>
         total_distance_km (fst (process_pool E pool)) =
           py_round2 (sum_list (map (\<lambda>(s, nx). leg_distance E s nx)
                        (zip (order_stops (snd pool)) (tl (order_stops (snd pool)))))) \<and>
         num_stops (fst (process_pool E pool)) = length (order_stops (snd pool))"
proof -
  have v: "visit E i s (Some nx) st =
           st\<lparr>route_coordinates := route_coordinates st @
                 [\<lparr>sequence = i, rc_stop_type = stop_type s, rc_shipment_id = stop_shipment_id s,
                   latitude = fst yx, longitude = snd yx\<rparr>]\<rparr>" for i st
    using assms by (simp add: visit_def Let_def no_path_leg)
  have t: "leg_time E s nx = 0" and d: "leg_distance E s nx = 0"
    by (simp_all add: leg_time_def leg_distance_def v initial_state_def)
  have p: "total_travel_time_minutes (fst (process_pool E pool)) =
           py_round2 (sum_list (map (\<lambda>(s, nx). leg_time E s nx)
                        (zip (order_stops (snd pool)) (tl (order_stops (snd pool))))))"
    by (simp add: process_pool_def make_pool_result_def Let_def route_loop_totals initial_state_def)
  have q: "total_distance_km (fst (process_pool E pool)) =
           py_round2 (sum_list (map (\<lambda>(s, nx). leg_distance E s nx)
                        (zip (order_stops (snd pool)) (tl (order_stops (snd pool))))))"
    by (simp add: process_pool_def make_pool_result_def Let_def route_loop_totals initial_state_def)
  have r: "num_stops (fst (process_pool E pool)) = length (order_stops (snd pool))"
    by (simp add: process_pool_def make_pool_result_def Let_def)
  from v t d p q r route_loop_totals [of E j stops st'] show ?thesis by blast
qed

theorem unreachable_leg_excluded_witness:
  "nearest_nodes example_routing (lng (delivery_stop (hd example_shipments)))
     (lat (delivery_stop (hd example_shipments))) = Inr 2 \<and>
   node_yx example_routing 2 = Inr (2, 2) \<and>
   nearest_nodes example_routing (lng (delivery_stop (last example_shipments)))
     (lat (delivery_stop (last example_shipments))) = Inr 8 \<and>
   ox_shortest_path example_routing 2 8 = Inl NetworkXNoPath \<and>
   leg_time example_routing (delivery_stop (hd example_shipments))
     (delivery_stop (last example_shipments)) = 0 \<and>
   leg_distance example_routing (delivery_stop (hd example_shipments))
     (delivery_stop (last example_shipments)) = 0 \<and>
   warnings (visit example_routing 2 (delivery_stop (hd example_shipments))
     (Some (delivery_stop (last example_shipments))) initial_state) = [] \<and>
   total_travel_time (route_loop example_routing 0 (order_stops example_shipments) initial_state)
     = 0"
proof -
  have a: "nearest_nodes example_routing (lng (delivery_stop (hd example_shipments)))
     (lat (delivery_stop (hd example_shipments))) = Inr 2"
    by (simp add: example_routing_def delivery_stop_def example_shipments_def)
  have b: "node_yx example_routing 2 = Inr (2, 2)"
    by (simp add: example_routing_def)
  have c: "nearest_nodes example_routing (lng (delivery_stop (last example_shipments)))
     (lat (delivery_stop (last example_shipments))) = Inr 8"
    by (simp add: example_routing_def delivery_stop_def example_shipments_def)
  have d: "ox_shortest_path example_routing 2 8 = Inl NetworkXNoPath"
    by (simp add: example_routing_def)
  have d': "ox_shortest_path example_routing 2 8 = Inl NetworkXNoPath \<or>
            ox_shortest_path example_routing 2 8 = Inr None"
    using d by simp
  note th = unreachable_leg_excluded [OF a b c d', of 2 initial_state 0
      "order_stops example_shipments" initial_state "(0, example_shipments)"]
  from th have t: "leg_time example_routing (delivery_stop (hd example_shipments))
     (delivery_stop (last example_shipments)) = 0"
    and l: "leg_distance example_routing (delivery_stop (hd example_shipments))
     (delivery_stop (last example_shipments)) = 0"
    by blast+
  from th have w: "warnings (visit example_routing 2 (delivery_stop (hd example_shipments))
     (Some (delivery_stop (last example_shipments))) initial_state) = warnings initial_state"
    by simp
  have e: "total_travel_time
      (route_loop example_routing 0 (order_stops example_shipments) initial_state) = 0"
    by (simp add: example_loop)
  from a b c d t l w e show ?thesis by (simp add: initial_state_def)
qed

lemma example_loop_zero:
  "route_loop example_routing_zero 0 (order_stops example_shipments) initial_state =
   route_loop example_routing 0 (order_stops example_shipments) initial_state"
proof -
  obtain a b c d where o: "order_stops example_shipments =
     [\<lparr>stop_type = Pickup, stop_shipment_id = ''SHIP_001'', lat = 0, lng = 0, stop_weight = 10,
        distance_from_center = a, distance_from_last_pickup = None\<rparr>,
      \<lparr>stop_type = Pickup, stop_shipment_id = ''SHIP_002'', lat = 2, lng = 2, stop_weight = 20,
        distance_from_center = b, distance_from_last_pickup = None\<rparr>,
      \<lparr>stop_type = Delivery, stop_shipment_id = ''SHIP_001'', lat = 2, lng = 2, stop_weight = 10,
        distance_from_center = None, distance_from_last_pickup = c\<rparr>,
      \<lparr>stop_type = Delivery, stop_shipment_id = ''SHIP_002'', lat = 8, lng = 8, stop_weight = 20,
        distance_from_center = None, distance_from_last_pickup = d\<rparr>]"
    using example_stops by blast
  show ?thesis
    unfolding o
    by (simp add: visit_def leg_def find_optimal_path_def example_routing_def
          example_routing_zero_def initial_state_def
          calculate_path_stats_def zero_stats_def getitem_def no_attrs_def example_graph_def
          example_graph_zero_def get_or_def finish_stats_def)
qed

text \<open>
  C6 as stated fails: nothing in the result says that a pair of stops is unreachable, and
  no warning is recorded for it. In the example the leg from node 2 to node 8 has no
  path; the result of the pool and the list of warnings are the same as in the network
  where a segment of length zero joins the two nodes, and the list of warnings is empty.
\<close>

theorem unreachable_leg_not_flagged:
  "ox_shortest_path example_routing 2 8 = Inl NetworkXNoPath \<and>
   find_optimal_path example_routing 2 8 = Inr None \<and>
   find_optimal_path example_routing_zero 2 8 = Inr (Some [2, 8]) \<and>
   process_pool example_routing (0, example_shipments) =
     process_pool example_routing_zero (0, example_shipments) \<and>
   snd (process_pool example_routing (0, example_shipments)) = []"
proof -
  have "snd (process_pool example_routing (0, example_shipments)) = []"
    by (simp add: process_pool_def Let_def example_loop)
  moreover have "process_pool example_routing (0, example_shipments) =
     process_pool example_routing_zero (0, example_shipments)"
    by (simp add: process_pool_def Let_def example_loop_zero)
  moreover have "ox_shortest_path example_routing 2 8 = Inl NetworkXNoPath"
    "find_optimal_path example_routing 2 8 = Inr None"
    "find_optimal_path example_routing_zero 2 8 = Inr (Some [2, 8])"
    by (simp_all add: example_routing_def example_routing_zero_def find_optimal_path_def)
  ultimately show ?thesis by blast
qed












section \<open>The Shortest Path Engine: the theorems\<close>

lemma min_weight_in:
  assumes "min_weight S u v = Some w"
  shows "(u, v, w) \<in> set S"
proof -
  let ?es = "filter (\<lambda>(a, b, w). a = u \<and> b = v) S"
  let ?ws = "map (\<lambda>(a, b, w). w) ?es"
  have ne: "?ws \<noteq> []"
    using assms unfolding min_weight_def Let_def by (metis option.distinct(1))
  then have w: "w = Min (set ?ws)"
    using assms unfolding min_weight_def Let_def by (metis option.inject)
  have "set ?ws \<noteq> {}" using ne by (metis set_empty)
  then have "Min (set ?ws) \<in> set ?ws" by (rule Min_in [OF finite_set])
  with w have "w \<in> set ?ws" by simp
  then obtain e where e: "e \<in> set ?es" "w = (\<lambda>(a, b, w). w) e"
    by auto
  obtain a b c where abc: "e = (a, b, c)" by (cases e) auto
  with e show ?thesis by auto
qed

lemma min_weight_le: "(u, v, w) \<in> set S \<Longrightarrow> \<exists>m. min_weight S u v = Some m \<and> m \<le> w"
proof -
  assume a: "(u, v, w) \<in> set S"
  let ?ws = "map (\<lambda>(a, b, w). w) (filter (\<lambda>(a, b, w). a = u \<and> b = v) S)"
  from a have in_ws: "w \<in> set ?ws" by force
  then have ne: "?ws \<noteq> []" by (metis empty_iff empty_set)
  from in_ws have "Min (set ?ws) \<le> w" by (rule Min_le [OF finite_set])
  with ne show ?thesis by (simp add: min_weight_def Let_def)
qed

lemma min_weight_successors: "min_weight S u v = Some w \<Longrightarrow> v \<in> set (successors S u)"
  using min_weight_in [of S u v w] by (force simp: successors_def)

lemma min_weight_nonneg:
  assumes "list_all (\<lambda>(a, b, w). 0 \<le> w) S" and "min_weight S u v = Some w"
  shows "0 \<le> w"
  using min_weight_in [OF assms(2)] assms(1) by (auto simp: list_all_iff)

lemma wt_nonneg:
  assumes "list_all (\<lambda>(a, b, w). 0 \<le> w) S"
  shows "0 \<le> wt S p"
  using min_weight_nonneg [OF assms]
  by (induction S p rule: wt.induct) (auto split: option.splits intro: add_nonneg_nonneg)

lemma walkw_snoc:
  "p \<noteq> [] \<Longrightarrow> walkw S (p @ [v]) = (walkw S p \<and> min_weight S (last p) v \<noteq> None)"
  by (induction S p rule: walkw.induct) auto

lemma wt_snoc:
  "p \<noteq> [] \<Longrightarrow> wt S (p @ [v]) = wt S p + (case min_weight S (last p) v of None \<Rightarrow> 0 | Some w \<Rightarrow> w)"
  by (induction S p rule: wt.induct) auto

lemma valid_label_snoc:
  assumes "valid_label S s u lu" and "min_weight S u v = Some w"
  shows "valid_label S s v (fst lu + w, snd lu @ [v])"
proof -
  from assms(1) have ne: "snd lu \<noteq> []" by (auto simp: valid_label_def)
  with assms show ?thesis
    by (auto simp: valid_label_def walkw_snoc wt_snoc)
qed

lemma relax_at:
  "relax S u lu best v x =
     (if x = v
      then (case min_weight S u v of
              None \<Rightarrow> best v
            | Some w \<Rightarrow>
                (case best v of
                   None \<Rightarrow> Some (fst lu + w, snd lu @ [v])
                 | Some cur \<Rightarrow>
                     if better u (fst lu + w, snd lu @ [v]) cur
                     then Some (fst lu + w, snd lu @ [v]) else Some cur))
      else best x)"
  by (simp add: relax_def Let_def split: option.splits)

lemma better_le: "better u cand cur \<Longrightarrow> fst cand \<le> fst cur"
  by (auto simp: better_def)

lemma not_better_le: "\<not> better u cand cur \<Longrightarrow> fst cur \<le> fst cand"
  by (auto simp: better_def)

lemma relax_mono:
  assumes "best x = Some l"
  shows "\<exists>l'. relax S u lu best v x = Some l' \<and> fst l' \<le> fst l"
proof (cases "x = v")
  case False
  with assms show ?thesis by (simp add: relax_at)
next
  case True
  show ?thesis
  proof (cases "min_weight S u v")
    case None
    with True assms show ?thesis by (simp add: relax_at)
  next
    case (Some w)
    show ?thesis
    proof (cases "better u (fst lu + w, snd lu @ [v]) l")
      case b: True
      from better_le [OF b] have "fst lu + w \<le> fst l" by simp
      with True Some assms b show ?thesis by (simp add: relax_at)
    next
      case b: False
      with True Some assms show ?thesis by (simp add: relax_at)
    qed
  qed
qed

lemma relax_valid:
  assumes "valid_label S s u lu" and "\<And>x l. best x = Some l \<Longrightarrow> valid_label S s x l"
    and "relax S u lu best v x = Some l"
  shows "valid_label S s x l"
  using assms(2,3) valid_label_snoc [OF assms(1)]
  by (auto simp: relax_at split: option.splits if_splits)

lemma relax_target:
  assumes "min_weight S u v = Some w"
  shows "\<exists>l'. relax S u lu best v v = Some l' \<and> fst l' \<le> fst lu + w"
proof (cases "best v")
  case None
  with assms show ?thesis by (simp add: relax_at)
next
  case (Some cur)
  show ?thesis
  proof (cases "better u (fst lu + w, snd lu @ [v]) cur")
    case True
    with Some assms show ?thesis by (simp add: relax_at)
  next
    case False
    from not_better_le [OF False] have "fst cur \<le> fst lu + w" by simp
    with False Some assms show ?thesis by (simp add: relax_at)
  qed
qed

lemma relax_new:
  assumes "relax S u lu best v x \<noteq> None"
  shows "best x \<noteq> None \<or> min_weight S u x \<noteq> None"
  using assms by (auto simp: relax_at split: option.splits if_splits)

lemma relax_source:
  assumes "best s = Some (0, [s])" and "0 \<le> fst lu"
    and "list_all (\<lambda>(a, b, w). 0 \<le> w) S"
  shows "relax S u lu best v s = Some (0, [s])"
proof (cases "s = v")
  case False
  with assms(1) show ?thesis by (simp add: relax_at)
next
  case True
  show ?thesis
  proof (cases "min_weight S u v")
    case None
    with True assms(1) show ?thesis by (simp add: relax_at)
  next
    case (Some w)
    from min_weight_nonneg [OF assms(3) Some] assms(2) have "0 \<le> fst lu + w" by simp
    then have "\<not> better u (fst lu + w, snd lu @ [v]) (0, [s])"
      by (simp add: better_def via_def)
    with True Some assms(1) show ?thesis by (simp add: relax_at)
  qed
qed

lemma fold_relax_mono:
  assumes "best x = Some l"
  shows "\<exists>l'. fold (\<lambda>v b. relax S u lu b v) vs best x = Some l' \<and> fst l' \<le> fst l"
  using assms
proof (induction vs arbitrary: best l)
  case Nil
  then show ?case by simp
next
  case (Cons v vs)
  from relax_mono [of best x l S u lu v] Cons.prems obtain l1 where
    l1: "relax S u lu best v x = Some l1" "fst l1 \<le> fst l" by blast
  from Cons.IH [of "relax S u lu best v" l1] l1 obtain l2 where
    "fold (\<lambda>v b. relax S u lu b v) vs (relax S u lu best v) x = Some l2" "fst l2 \<le> fst l1"
    by blast
  with l1(2) show ?case by auto
qed

lemma fold_relax_valid:
  assumes "valid_label S s u lu" and "\<And>x l. best x = Some l \<Longrightarrow> valid_label S s x l"
    and "fold (\<lambda>v b. relax S u lu b v) vs best x = Some l"
  shows "valid_label S s x l"
  using assms(2,3)
proof (induction vs arbitrary: best x l)
  case Nil
  then show ?case by simp
next
  case (Cons v vs)
  have "\<And>y m. relax S u lu best v y = Some m \<Longrightarrow> valid_label S s y m"
    using relax_valid [OF assms(1)] Cons.prems(1) by blast
  from Cons.IH [OF this] Cons.prems(2) show ?case by simp
qed

lemma fold_relax_target:
  assumes "v \<in> set vs" and "min_weight S u v = Some w"
  shows "\<exists>l'. fold (\<lambda>v b. relax S u lu b v) vs best v = Some l' \<and> fst l' \<le> fst lu + w"
  using assms(1)
proof (induction vs arbitrary: best)
  case Nil
  then show ?case by simp
next
  case (Cons y vs)
  show ?case
  proof (cases "y = v")
    case True
    from relax_target [OF assms(2), of lu best] obtain l1 where
      l1: "relax S u lu best v v = Some l1" "fst l1 \<le> fst lu + w" by blast
    from fold_relax_mono [of "relax S u lu best v" v l1 S u lu vs] l1 obtain l2 where
      "fold (\<lambda>v b. relax S u lu b v) vs (relax S u lu best v) v = Some l2" "fst l2 \<le> fst l1"
      by blast
    with l1(2) True show ?thesis by auto
  next
    case False
    with Cons.prems have "v \<in> set vs" by simp
    from Cons.IH [OF this] show ?thesis by simp
  qed
qed

lemma fold_relax_new:
  assumes "fold (\<lambda>v b. relax S u lu b v) vs best x \<noteq> None"
  shows "best x \<noteq> None \<or> min_weight S u x \<noteq> None"
  using assms
proof (induction vs arbitrary: best)
  case Nil
  then show ?case by simp
next
  case (Cons v vs)
  from Cons.IH [of "relax S u lu best v"] Cons.prems
  have "relax S u lu best v x \<noteq> None \<or> min_weight S u x \<noteq> None" by simp
  with relax_new show ?case by blast
qed

lemma fold_relax_source:
  assumes "best s = Some (0, [s])" and "0 \<le> fst lu"
    and "list_all (\<lambda>(a, b, w). 0 \<le> w) S"
  shows "fold (\<lambda>v b. relax S u lu b v) vs best s = Some (0, [s])"
  using assms(1)
proof (induction vs arbitrary: best)
  case Nil
  then show ?case by simp
next
  case (Cons v vs)
  from relax_source [of best s lu S u v] Cons.prems assms(2,3)
  have "relax S u lu best v s = Some (0, [s])" by blast
  from Cons.IH [of "relax S u lu best v", OF this] show ?case by simp
qed

lemma reach_bound:
  assumes nn: "list_all (\<lambda>(a, b, w). 0 \<le> w) S"
    and relaxed: "\<And>u lu v w. u \<notin> set U \<Longrightarrow> best u = Some lu \<Longrightarrow> min_weight S u v = Some w \<Longrightarrow>
        \<exists>lv. best v = Some lv \<and> fst lv \<le> fst lu + w"
    and "walkw S q" and "best (hd q) = Some lx"
  shows "\<exists>z lz. best z = Some lz \<and> fst lz \<le> fst lx + wt S q \<and> (z \<in> set U \<or> z = last q)"
  using assms(3,4)
proof (induction q arbitrary: lx)
  case Nil
  then show ?case by simp
next
  case (Cons x r)
  show ?case
  proof (cases r)
    case Nil
    with Cons.prems show ?thesis by (intro exI [of _ x] exI [of _ lx]) simp
  next
    case r: (Cons y rest)
    from Cons.prems(1) r obtain w where w: "min_weight S x y = Some w" and rest: "walkw S r"
      by auto
    have wt: "wt S (x # r) = w + wt S r" using w r by simp
    show ?thesis
    proof (cases "x \<in> set U")
      case True
      have "0 \<le> wt S (x # r)" by (rule wt_nonneg [OF nn])
      with True Cons.prems(2) show ?thesis by (intro exI [of _ x] exI [of _ lx]) simp
    next
      case False
      from relaxed [OF False _ w] Cons.prems(2) obtain ly where
        ly: "best y = Some ly" "fst ly \<le> fst lx + w" by fastforce
      from Cons.IH [OF rest, of ly] ly(1) r obtain z lz where
        z: "best z = Some lz" "fst lz \<le> fst ly + wt S r" "z \<in> set U \<or> z = last r"
        by fastforce
      from z(2) ly(2) wt have "fst lz \<le> fst lx + wt S (x # r)" by simp
      with z(1,3) r show ?thesis by (intro exI [of _ z] exI [of _ lz]) simp
    qed
  qed
qed


lemma dijkstra_step:
  assumes nn: "list_all (\<lambda>(a, b, w). 0 \<le> w) S"
    and inv: "dijkstra_inv S s U best"
    and cand: "candidates U best = c # cs"
    and cl: "closest c cs = (d, u, p)"
  shows "dijkstra_inv S s (removeAll u U) (relax_all S u (d, p) best)"
proof -
  let ?best' = "relax_all S u (d, p) best"
  from inv have src: "best s = Some (0, [s])"
    and val: "\<And>v l. best v = Some l \<Longrightarrow> valid_label S s v l"
    and rel: "\<And>a la v w. a \<notin> set U \<Longrightarrow> best a = Some la \<Longrightarrow> min_weight S a v = Some w \<Longrightarrow>
        \<exists>lv. best v = Some lv \<and> fst lv \<le> fst la + w"
    and tgt: "\<And>a v w. min_weight S a v = Some w \<Longrightarrow> v \<in> set U \<or> best v \<noteq> None"
    and opt: "\<And>a la q. a \<notin> set U \<Longrightarrow> best a = Some la \<Longrightarrow> walkw S q \<Longrightarrow> hd q = s \<Longrightarrow>
        last q = a \<Longrightarrow> fst la \<le> wt S q"
    unfolding dijkstra_inv_def by blast+
  from closest_unsettled [OF cand cl] have uU: "u \<in> set U" and bu: "best u = Some (d, p)"
    by simp_all
  from val [OF bu] have vu: "valid_label S s u (d, p)" .
  then have d0: "0 \<le> d" using wt_nonneg [OF nn, of p] by (simp add: valid_label_def)
  have minimal: "d \<le> fst l" if "v \<in> set U" and "best v = Some l" for v l
  proof -
    from that have "(fst l, v, snd l) \<in> set (c # cs)"
      using candidates_iff [of "fst l" v "snd l" U best] cand by simp
    from closest_le [OF this] cl show ?thesis by simp
  qed
  have opt_u: "d \<le> wt S q" if "walkw S q" and "hd q = s" and "last q = u" for q
  proof -
    from that(2) src have hq: "best (hd q) = Some (0, [s])" by simp
    have "\<exists>z lz. best z = Some lz \<and> fst lz \<le> fst (0 :: real, [s]) + wt S q \<and>
        (z \<in> set U \<or> z = last q)"
    proof (rule reach_bound [of S U best q "(0, [s])"])
      show "list_all (\<lambda>(a, b, w). 0 \<le> w) S" by (rule nn)
      show "walkw S q" by (rule that(1))
      show "best (hd q) = Some (0, [s])" by (rule hq)
    next
      fix a la v w
      assume "a \<notin> set U" "best a = Some la" "min_weight S a v = Some w"
      then show "\<exists>lv. best v = Some lv \<and> fst lv \<le> fst la + w" by (rule rel)
    qed
    then obtain z lz where
      z: "best z = Some lz" "fst lz \<le> wt S q" "z \<in> set U \<or> z = last q"
      by fastforce
    from z(3) show ?thesis
    proof
      assume "z \<in> set U"
      from minimal [OF this z(1)] z(2) show ?thesis by simp
    next
      assume "z = last q"
      with that(3) z(1) bu have "lz = (d, p)" by simp
      with z(2) show ?thesis by simp
    qed
  qed
  have mono: "\<exists>l'. ?best' x = Some l' \<and> fst l' \<le> fst l" if "best x = Some l" for x l
    unfolding relax_all_def
    using fold_relax_mono [of best x l S u "(d, p)" "successors S u"] that by simp
  have val': "valid_label S s x l" if "?best' x = Some l" for x l
    using fold_relax_valid [of S s u "(d, p)" best "successors S u" x l] vu val that
    unfolding relax_all_def by blast
  have target: "\<exists>l'. ?best' v = Some l' \<and> fst l' \<le> d + w" if "min_weight S u v = Some w" for v w
    using fold_relax_target [OF min_weight_successors [OF that] that, of "(d, p)" best]
    unfolding relax_all_def by simp
  have new: "best x \<noteq> None \<or> min_weight S u x \<noteq> None" if "?best' x \<noteq> None" for x
    using fold_relax_new [of S u "(d, p)" "successors S u" best x] that
    unfolding relax_all_def by blast
  have src': "?best' s = Some (0, [s])"
    unfolding relax_all_def
    using fold_relax_source [of best s "(d, p)" S u "successors S u"] src d0 nn by simp
  have keep: "fst l' = fst l"
    if "best x = Some l" and "?best' x = Some l'"
      and o: "\<And>q. walkw S q \<Longrightarrow> hd q = s \<Longrightarrow> last q = x \<Longrightarrow> fst l \<le> wt S q" for x l l'
  proof -
    from mono [OF that(1)] that(2) have le: "fst l' \<le> fst l" by simp
    from val' [OF that(2)] have "walkw S (snd l')" "hd (snd l') = s" "last (snd l') = x"
      "wt S (snd l') = fst l'" by (simp_all add: valid_label_def)
    with o [of "snd l'"] have "fst l \<le> fst l'" by simp
    with le show ?thesis by simp
  qed
  have old: "\<exists>l. best a = Some l" if "a \<notin> set U" and "?best' a \<noteq> None" for a
  proof -
    from new [OF that(2)] show ?thesis
    proof
      assume "best a \<noteq> None"
      then show ?thesis by auto
    next
      assume "min_weight S u a \<noteq> None"
      then obtain w where "min_weight S u a = Some w" by auto
      from tgt [OF this] that(1) show ?thesis by auto
    qed
  qed
  have settled: "(a \<notin> set U \<and> (\<exists>l. best a = Some l)) \<or> a = u"
    if "a \<notin> set (removeAll u U)" and "?best' a \<noteq> None" for a
    using that old [of a] by auto
  have c3: "\<exists>lv. ?best' v = Some lv \<and> fst lv \<le> fst la + w"
    if "a \<notin> set (removeAll u U)" and "?best' a = Some la" and "min_weight S a v = Some w" for a la v w
  proof (cases "a = u")
    case True
    from keep [OF bu, of la] that(2) True opt_u have "fst la = d" by simp
    with target [of v w] that(3) True show ?thesis by simp
  next
    case False
    with that(1) have aU: "a \<notin> set U" by simp
    from old [OF aU] that(2) obtain l where l: "best a = Some l" by auto
    from keep [OF l that(2)] opt [OF aU l] have e: "fst la = fst l" by blast
    from rel [OF aU l that(3)] obtain lv where lv: "best v = Some lv" "fst lv \<le> fst l + w"
      by blast
    from mono [OF lv(1)] obtain lv' where "?best' v = Some lv'" "fst lv' \<le> fst lv" by blast
    with lv(2) e show ?thesis by simp
  qed
  have c4: "v \<in> set (removeAll u U) \<or> ?best' v \<noteq> None" if "min_weight S a v = Some w" for a v w
  proof (cases "best v")
    case None
    with tgt [OF that] have "v \<in> set U" by simp
    moreover from None bu have "v \<noteq> u" by auto
    ultimately show ?thesis by simp
  next
    case (Some l)
    from mono [OF Some] show ?thesis by auto
  qed
  have c5: "fst la \<le> wt S q"
    if "a \<notin> set (removeAll u U)" and "?best' a = Some la" and "walkw S q" and "hd q = s"
      and "last q = a" for a la q
  proof (cases "a = u")
    case True
    from keep [OF bu, of la] that(2) True opt_u have "fst la = d" by simp
    with opt_u [of q] that True show ?thesis by simp
  next
    case False
    with that(1) have aU: "a \<notin> set U" by simp
    from old [OF aU] that(2) obtain l where l: "best a = Some l" by auto
    from keep [OF l that(2)] opt [OF aU l] have e: "fst la = fst l" by blast
    with opt [OF aU l that(3,4,5)] show ?thesis by simp
  qed
  show ?thesis
    unfolding dijkstra_inv_def
    using src' val' c3 c4 c5 by blast
qed

lemma dijkstra_loop_correct:
  assumes nn: "list_all (\<lambda>(a, b, w). 0 \<le> w) S"
  shows "dijkstra_inv S s U best \<Longrightarrow>
     (\<forall>v l. dijkstra_loop S U best v = Some l \<longrightarrow> valid_label S s v l) \<and>
     (\<forall>q. walkw S q \<and> hd q = s \<longrightarrow>
        (\<exists>l. dijkstra_loop S U best (last q) = Some l \<and> fst l \<le> wt S q))"
  using nn
proof (induction S U best rule: dijkstra_loop.induct)
  case (1 S U best)
  note nn = "1.prems"(2) and inv = "1.prems"(1)
  show ?case
  proof (cases "candidates U best")
    case Nil
    then have fin: "dijkstra_loop S U best = best"
      by (subst dijkstra_loop.simps) simp
    from inv have src: "best s = Some (0, [s])"
      and val: "\<And>v l. best v = Some l \<Longrightarrow> valid_label S s v l"
      and rel: "\<And>a la v w. a \<notin> set U \<Longrightarrow> best a = Some la \<Longrightarrow> min_weight S a v = Some w \<Longrightarrow>
        \<exists>lv. best v = Some lv \<and> fst lv \<le> fst la + w"
      unfolding dijkstra_inv_def by blast+
    have none: "best z = None" if "z \<in> set U" for z
    proof (cases "best z")
      case (Some l)
      with that have "(fst l, z, snd l) \<in> set (candidates U best)"
        by (simp add: candidates_iff)
      with Nil show ?thesis by simp
    qed simp
    have "\<exists>l. best (last q) = Some l \<and> fst l \<le> wt S q" if "walkw S q" and "hd q = s" for q
    proof -
      from that(2) src have hq: "best (hd q) = Some (0, [s])" by simp
      have "\<exists>z lz. best z = Some lz \<and> fst lz \<le> fst (0 :: real, [s]) + wt S q \<and>
          (z \<in> set U \<or> z = last q)"
      proof (rule reach_bound [of S U best q "(0, [s])"])
        show "list_all (\<lambda>(a, b, w). 0 \<le> w) S" by (rule nn)
        show "walkw S q" by (rule that(1))
        show "best (hd q) = Some (0, [s])" by (rule hq)
      next
        fix a la v w
        assume "a \<notin> set U" "best a = Some la" "min_weight S a v = Some w"
        then show "\<exists>lv. best v = Some lv \<and> fst lv \<le> fst la + w" by (rule rel)
      qed
      then obtain z lz where
        z: "best z = Some lz" "fst lz \<le> wt S q" "z \<in> set U \<or> z = last q"
        by fastforce
      from z(1,3) none [of z] have "z = last q" by auto
      with z(1,2) show ?thesis by simp
    qed
    with val fin show ?thesis by simp
  next
    case (Cons c cs)
    obtain d u p where cl: "closest c cs = (d, u, p)" by (cases "closest c cs") auto
    have fin: "dijkstra_loop S U best = dijkstra_loop S (removeAll u U) (relax_all S u (d, p) best)"
      by (subst dijkstra_loop.simps) (simp add: Cons cl)
    from dijkstra_step [OF nn inv Cons cl]
    have "dijkstra_inv S s (removeAll u U) (relax_all S u (d, p) best)" .
    from "1.IH" [OF Cons cl [symmetric] refl this nn] fin show ?thesis by simp
  qed
qed

lemma nodes_of_target: "(u, v, w) \<in> set S \<Longrightarrow> v \<in> set (nodes_of S)"
  by (force simp: nodes_of_def)

lemma dijkstra_inv_initial:
  "dijkstra_inv S s (s # nodes_of S) (Map.empty(s \<mapsto> (0, [s])))"
proof -
  have "valid_label S s s (0, [s])" by (simp add: valid_label_def)
  moreover have "v \<in> set (s # nodes_of S)" if "min_weight S u v = Some w" for u v w
    using nodes_of_target [OF min_weight_in [OF that]] by simp
  ultimately show ?thesis
    unfolding dijkstra_inv_def by (auto split: if_splits)
qed

lemma via_snoc2: "via (pv @ [x, v]) = Some x"
  by (simp add: via_def)

text \<open>
  C4, for the engine of section 4.4. When the travel times are not negative and the
  destination can be reached from the source by some walk \<open>q\<close>, the engine returns a path:
  a walk from the source to the destination whose travel time is at most that of \<open>q\<close>. The
  engine is a function of the segments, the source and the destination, so the same
  inputs give the same path. At a relaxation step that finds a path of the same cost as
  the present one, the path that enters the node from the lower node id is kept.
\<close>

theorem shortest_path_optimal:
  assumes "list_all (\<lambda>(a, b, w). 0 \<le> w) S"
    and "walkw S q" and "hd q = source" and "last q = destination"
  shows "(\<exists>d p. shortest_path S source destination = Inr (d, p) \<and>
            walkw S p \<and> hd p = source \<and> last p = destination \<and> wt S p = d \<and> d \<le> wt S q) \<and>
         (min_weight S u v = Some w \<and> best v = Some (fst lu + w, pv @ [x, v]) \<longrightarrow>
            relax S u lu best v v =
              Some (fst lu + w, if u < x then snd lu @ [v] else pv @ [x, v]))"
proof -
  let ?final = "dijkstra_loop S (source # nodes_of S) (Map.empty(source \<mapsto> (0, [source])))"
  from dijkstra_loop_correct [OF assms(1) dijkstra_inv_initial, of source]
  have val: "\<And>v l. ?final v = Some l \<Longrightarrow> valid_label S source v l"
    and opt: "\<And>q. walkw S q \<Longrightarrow> hd q = source \<Longrightarrow> \<exists>l. ?final (last q) = Some l \<and> fst l \<le> wt S q"
    by blast+
  from opt [OF assms(2,3)] assms(4) obtain l where
    l: "?final destination = Some l" "fst l \<le> wt S q" by auto
  from val [OF l(1)] have "walkw S (snd l)" "hd (snd l) = source" "last (snd l) = destination"
    "wt S (snd l) = fst l" by (simp_all add: valid_label_def)
  moreover from l(1) have "shortest_path S source destination = Inr (fst l, snd l)"
    by (simp add: shortest_path_def)
  ultimately have 1: "\<exists>d p. shortest_path S source destination = Inr (d, p) \<and>
            walkw S p \<and> hd p = source \<and> last p = destination \<and> wt S p = d \<and> d \<le> wt S q"
    using l(2) by blast
  have 2: "min_weight S u v = Some w \<and> best v = Some (fst lu + w, pv @ [x, v]) \<longrightarrow>
            relax S u lu best v v =
              Some (fst lu + w, if u < x then snd lu @ [v] else pv @ [x, v])"
    by (simp add: relax_at better_def via_snoc2)
  from 1 2 show ?thesis by blast
qed

lemma tie_eval: "shortest_path tie_segments 1 3 = Inr (2, [1, 3])"
  by (simp add: tie_segments_def shortest_path_def nodes_of_def candidates_def relax_all_def
        successors_def relax_def min_weight_def better_def via_def dijkstra_loop.simps)

theorem shortest_path_optimal_witness:
  "list_all (\<lambda>(a, b, w). 0 \<le> w) (segments scenario_graph) \<and>
   walkw (segments scenario_graph) [1, 2, 3] \<and> hd [1, 2, 3 :: nat] = 1 \<and>
   last [1, 2, 3 :: nat] = 3 \<and>
   shortest_path (segments scenario_graph) 1 3 = Inr (42 / 10, [1, 2, 3]) \<and>
   (\<exists>d p. shortest_path (segments scenario_graph) 1 3 = Inr (d, p) \<and>
      walkw (segments scenario_graph) p \<and> hd p = 1 \<and> last p = 3 \<and>
      d \<le> wt (segments scenario_graph) [1, 2, 3]) \<and>
   list_all (\<lambda>(a, b, w). 0 \<le> w) tie_segments \<and> walkw tie_segments [1, 2, 3] \<and>
   shortest_path tie_segments 1 3 = Inr (2, [1, 3]) \<and>
   min_weight tie_segments 1 3 = Some 2 \<and>
   relax tie_segments 1 (0, [1]) [3 \<mapsto> (2, [1, 2, 3])] 3 3 = Some (2, [1, 3])"
proof -
  have S: "segments scenario_graph = [(1, 2, 12 / 10), (2, 3, 3)]"
    by (simp add: segments_def scenario_graph_def)
  have nn: "list_all (\<lambda>(a, b, w). 0 \<le> w) (segments scenario_graph)"
    by (simp add: S)
  have w: "walkw (segments scenario_graph) [1, 2, 3]"
    by (simp add: S min_weight_def)
  have h: "hd [1, 2, 3 :: nat] = 1" and l: "last [1, 2, 3 :: nat] = 3" by simp_all
  have e: "shortest_path (segments scenario_graph) 1 3 = Inr (42 / 10, [1, 2, 3])"
    unfolding S
    by (simp add: shortest_path_def nodes_of_def candidates_def relax_all_def
          successors_def relax_def min_weight_def better_def via_def dijkstra_loop.simps)
  have nn': "list_all (\<lambda>(a, b, w). 0 \<le> w) tie_segments"
    by (simp add: tie_segments_def)
  have w': "walkw tie_segments [1, 2, 3]"
    by (simp add: tie_segments_def min_weight_def)
  have m: "min_weight tie_segments 1 3 = Some 2"
    by (simp add: tie_segments_def min_weight_def)
  have b: "[3 \<mapsto> (2 :: real, [1, 2, 3 :: nat])] 3 = Some (fst (0 :: real, [1 :: nat]) + 2, [1] @ [2, 3])"
    by simp
  note th1 = shortest_path_optimal [OF nn w h l]
  note th2 = shortest_path_optimal [OF nn' w' h l, of 1 3 2 "[3 \<mapsto> (2, [1, 2, 3])]" "(0, [1])"
      "[1]" 2]
  from th1 have o: "\<exists>d p. shortest_path (segments scenario_graph) 1 3 = Inr (d, p) \<and>
      walkw (segments scenario_graph) p \<and> hd p = 1 \<and> last p = 3 \<and>
      d \<le> wt (segments scenario_graph) [1, 2, 3]"
    by blast
  from th2 m b have r: "relax tie_segments 1 (0, [1]) [3 \<mapsto> (2, [1, 2, 3])] 3 3 = Some (2, [1, 3])"
    by simp
  from nn w h l e o nn' w' tie_eval m r show ?thesis by blast
qed

end
